theory Spec2Isabelle
  imports Complex_Main "HOL-Library.Word"
begin

section \<open>The LibreOffice WASM converter wrapper (src/lib/libreoffice/converter.ts)\<close>

text \<open>
  The theory embeds the class \<open>LibreOfficeConverter\<close> and the factory
  \<open>getLibreOfficeConverter\<close>. The worker-hosted engine, \<open>fetch\<close>, the browser globals
  and the uploaded \<open>File\<close> are collaborators outside the source: what they answer during a
  call is a parameter of that call. Console output and timing measurements have no
  effect on control flow or state and are left out.

  Each method is embedded twice. First as a function from the state before the call to
  the outcome, the state after it and the effects on the collaborators, for a call that
  runs with no other call in between. Then cut at its \<open>await\<close>s, as the steps of a task
  that a scheduler interleaves with other tasks. Theorems \<open>initialize_alone\<close>,
  \<open>convert_alone\<close> and \<open>destroy_alone\<close> relate the two.
\<close>

subsection \<open>Strings: \<open>split('.')\<close>, \<open>pop()\<close>, \<open>toLowerCase()\<close> and number rendering\<close>

text \<open>
  A string is a list of code units; the model has the code units below 256. On a string
  of ASCII code units \<open>toLowerCase\<close> turns \<open>A\<close>..\<open>Z\<close> into \<open>a\<close>..\<open>z\<close> and keeps the
  rest. What \<open>toLowerCase\<close> returns for a string with a code unit beyond ASCII
  (Unicode case mapping) is a parameter, \<open>beyond\<close>.
\<close>

definition lower_char :: "char \<Rightarrow> char" where
  "lower_char c =
     (case map_of (zip ''ABCDEFGHIJKLMNOPQRSTUVWXYZ'' ''abcdefghijklmnopqrstuvwxyz'') c of
        Some l \<Rightarrow> l
      | None \<Rightarrow> c)"

definition is_ASCII :: "char \<Rightarrow> bool" where
  "is_ASCII c = (of_char c < (128 :: nat))"

definition toLowerCase :: "(string \<Rightarrow> string) \<Rightarrow> string \<Rightarrow> string" where
  "toLowerCase beyond s = (if list_all is_ASCII s then map lower_char s else beyond s)"

text \<open>\<open>name.split('.')\<close>: the pieces between the dots, in order; never an empty array.\<close>

fun split_dot :: "string \<Rightarrow> string list" where
  "split_dot [] = [[]]"
| "split_dot (c # cs) =
     (if c = CHR ''.'' then [] # split_dot cs
      else (case split_dot cs of
              [] \<Rightarrow> [[c]]
            | p # ps \<Rightarrow> (c # p) # ps))"

text \<open>\<open>Array.prototype.pop()\<close>: the last element, \<open>undefined\<close> (\<open>None\<close>) on an empty array.\<close>

definition pop :: "'a list \<Rightarrow> 'a option" where
  "pop xs = (if xs = [] then None else Some (last xs))"

text \<open>
  \<open>file.name.split('.').pop()?.toLowerCase() || ''\<close>: the optional call keeps
  \<open>undefined\<close>, and \<open>||\<close> replaces a falsy value (\<open>undefined\<close> or the empty string) by
  the empty string.
\<close>

definition extension :: "(string \<Rightarrow> string) \<Rightarrow> string \<Rightarrow> string" where
  "extension beyond name =
     (case map_option (toLowerCase beyond) (pop (split_dot name)) of
        None \<Rightarrow> ''''
      | Some e \<Rightarrow> (if e = '''' then '''' else e))"

text \<open>
  Rendering of numbers and booleans inside template literals. Integers are rendered in
  decimal notation, as JavaScript does for magnitudes below \<open>10^21\<close> (beyond that it
  switches to exponent notation).
\<close>

definition digit_char :: "nat \<Rightarrow> char" where
  "digit_char d = ''0123456789'' ! (d mod 10)"

fun show_nat :: "nat \<Rightarrow> string" where
  "show_nat n = (if n < 10 then [digit_char n] else show_nat (n div 10) @ [digit_char n])"

declare show_nat.simps [simp del]

definition show_int :: "int \<Rightarrow> string" where
  "show_int i = (if i < 0 then CHR ''-'' # show_nat (nat (- i)) else show_nat (nat i))"

definition show_bool :: "bool \<Rightarrow> string" where
  "show_bool b = (if b then ''true'' else ''false'')"

text \<open>A global that is a boolean or \<open>undefined\<close> (\<open>None\<close>), rendered and tested for truth.\<close>

definition show_global :: "bool option \<Rightarrow> string" where
  "show_global g = (case g of None \<Rightarrow> ''undefined'' | Some b \<Rightarrow> show_bool b)"

definition truthy :: "bool option \<Rightarrow> bool" where
  "truthy g = (g = Some True)"

text \<open>\<open>Math.round\<close>: the nearest integer, halves rounded up.\<close>

definition math_round :: "rat \<Rightarrow> int" where
  "math_round x = \<lfloor>x + 1 / 2\<rfloor>"

text \<open>\<open>s.startsWith(p)\<close>.\<close>

definition startsWith :: "string \<Rightarrow> string \<Rightarrow> bool" where
  "startsWith s p = (take (length p) s = p)"

subsection \<open>Thrown values\<close>

text \<open>
  The wrapper itself only throws \<open>new Error(message)\<close>. A collaborator (\<open>fetch\<close>, the
  engine, the file) may throw any value: what the wrapper can see of it is whether it is
  an \<open>instanceof Error\<close>, its \<open>message\<close>, and its rendering in a template literal.
\<close>

datatype thrown =
    Error string
  | Foreign bool string string

fun instanceof_Error :: "thrown \<Rightarrow> bool" where
  "instanceof_Error (Error m) = True"
| "instanceof_Error (Foreign is_err m txt) = is_err"

fun message_of :: "thrown \<Rightarrow> string" where
  "message_of (Error m) = m"
| "message_of (Foreign is_err m txt) = m"

fun to_text :: "thrown \<Rightarrow> string" where
  "to_text (Error m) = (if m = '''' then ''Error'' else ''Error: '' @ m)"
| "to_text (Foreign is_err m txt) = txt"

subsection \<open>Data model\<close>

type_synonym byte = "8 word"

text \<open>
  A progress object. The engine's \<open>phase\<close> is cast to the union type of the five phase
  names without a check, so it is any string; \<open>percent\<close> is a finite number.
\<close>

record LoadProgress =
  phase :: string
  percent :: rat
  message :: string

text \<open>
  A caller-supplied progress callback is known by its identity. When it is invoked it
  returns or throws; it does not call back into the instance.
\<close>

type_synonym ProgressCallback = nat

text \<open>The options object handed to \<open>new WorkerBrowserConverter(...)\<close>.\<close>

record engine_options =
  sofficeJs :: string
  sofficeWasm :: string
  sofficeData :: string
  sofficeWorkerJs :: string
  browserWorkerJs :: string
  verbose :: bool

text \<open>
  The engine handle. Its \<open>onProgress\<close> listener is a closure over \<open>this\<close> and over the
  local variable \<open>progressCallback\<close> of the \<open>initialize\<close> call that constructed it;
  \<open>captured\<close> is the current value of that variable.
\<close>

record WorkerBrowserConverter =
  options :: engine_options
  captured :: "ProgressCallback option"

record LibreOfficeConverter =
  converter :: "WorkerBrowserConverter option"
  initialized :: bool
  initializing :: bool
  basePath :: string

record File =
  name :: string
  arrayBuffer :: "thrown + byte list"

record engine_result =
  data :: "byte list"
  mimeType :: string

text \<open>The arguments of \<open>new Blob([data], { type })\<close>: a copy of the bytes and the type option.\<close>

record Blob =
  blob_parts :: "byte list"
  blob_type :: string

datatype fetch_outcome =
    Response bool nat
  | Rejects thrown

text \<open>
  What the collaborators answer during one call: \<open>window.crossOriginIsolated\<close> (a
  boolean, or \<open>undefined\<close> in a browser that does not know it), whether
  \<open>SharedArrayBuffer\<close> is defined, the response (\<open>ok\<close>, \<open>status\<close>) or rejection of each
  \<open>HEAD\<close> request, whether a progress callback invoked with a progress object throws
  (\<open>Some e\<close>) or returns (\<open>None\<close>), \<open>toLowerCase\<close> beyond ASCII, the progress events the
  engine fires while it boots and whether the boot rejects, the engine's \<open>convert\<close>
  and whether its \<open>destroy\<close> rejects.
\<close>

record environment =
  crossOriginIsolated :: "bool option"
  hasSharedArrayBuffer :: bool
  fetch :: "string \<Rightarrow> fetch_outcome"
  callback :: "ProgressCallback \<Rightarrow> LoadProgress \<Rightarrow> thrown option"
  lower_beyond_ASCII :: "string \<Rightarrow> string"
  engine_progress :: "LoadProgress list"
  engine_initialize :: "thrown option"
  engine_convert :: "byte list \<Rightarrow> string \<Rightarrow> string \<Rightarrow> string \<Rightarrow> thrown + engine_result"
  engine_destroy :: "thrown option"

text \<open>
  Effects on the collaborators, in the order they happen. A \<open>Progress\<close> effect is one
  invocation of a caller-supplied callback (whether it then returns or throws), with the
  values of the \<open>initialized\<close> and \<open>initializing\<close> flags at that moment.
\<close>

datatype effect =
    Fetch string
  | Construct engine_options
  | EngineInitialize
  | EngineConvert "byte list" string string string
  | EngineDestroy
  | Progress ProgressCallback LoadProgress bool bool

record 'r settled =
  outcome :: "thrown + 'r"
  state :: LibreOfficeConverter
  effects :: "effect list"

subsection \<open>Constants and the constructor\<close>

definition LIBREOFFICE_PATH :: string where
  "LIBREOFFICE_PATH = ''/libreoffice-wasm/''"

definition ASSET_VERSION :: string where
  "ASSET_VERSION = ''20240212-3''"

text \<open>\<open>basePath || LIBREOFFICE_PATH\<close>: an absent or empty argument gives the default.\<close>

definition new_LibreOfficeConverter :: "string option \<Rightarrow> LibreOfficeConverter" where
  "new_LibreOfficeConverter arg =
     \<lparr>converter = None, initialized = False, initializing = False,
      basePath = (case arg of
                    None \<Rightarrow> LIBREOFFICE_PATH
                  | Some b \<Rightarrow> (if b = '''' then LIBREOFFICE_PATH else b))\<rparr>"

definition isReady :: "LibreOfficeConverter \<Rightarrow> bool" where
  "isReady this = (initialized this \<and> converter this \<noteq> None)"

subsection \<open>\<open>checkEnvironment\<close>\<close>

definition environment_error :: "bool option \<Rightarrow> thrown" where
  "environment_error isIsolated =
     Error (''SharedArrayBuffer is not available (crossOriginIsolated='' @ show_global isIsolated @ ''). ''
            @ ''Your server must set Cross-Origin-Opener-Policy and Cross-Origin-Embedder-Policy headers. ''
            @ ''See browser console for details.'')"

definition files :: "string list" where
  "files = [''soffice.wasm'', ''soffice.data'', ''soffice.js'', ''soffice.worker.js'',
            ''browser.worker.global.js'']"

definition asset_url :: "string \<Rightarrow> string \<Rightarrow> string" where
  "asset_url base file = base @ file @ ''?v='' @ ASSET_VERSION"

text \<open>
  The \<open>catch (e)\<close> clause of the loop body: an \<open>Error\<close> whose message starts with
  \<open>Required file\<close> is thrown again as it is, anything else is wrapped.
\<close>

definition catch_clause :: "string \<Rightarrow> thrown \<Rightarrow> thrown" where
  "catch_clause file e =
     (if instanceof_Error e \<and> startsWith (message_of e) ''Required file'' then e
      else Error (''Cannot fetch '' @ file @ '': '' @ to_text e))"

text \<open>
  One iteration of the loop once the \<open>HEAD\<close> request has settled: \<open>None\<close> when the
  iteration completes, \<open>Some e\<close> when it leaves \<open>checkEnvironment\<close> with \<open>e\<close> thrown.
  The \<open>throw\<close> of the \<open>else\<close> branch sits inside the \<open>try\<close> and passes through the
  \<open>catch\<close> clause too.
\<close>

definition check_file :: "string \<Rightarrow> fetch_outcome \<Rightarrow> thrown option" where
  "check_file file res =
     (case res of
        Response ok status \<Rightarrow>
          (if ok then None
           else Some (catch_clause file
                        (Error (''Required file '' @ file @ '' returned HTTP '' @ show_nat status))))
      | Rejects e \<Rightarrow> Some (catch_clause file e))"

fun check_files :: "environment \<Rightarrow> string \<Rightarrow> string list \<Rightarrow> thrown option \<times> effect list" where
  "check_files env base [] = (None, [])"
| "check_files env base (file # rest) =
     (let url = asset_url base file in
      case check_file file (fetch env url) of
        Some e \<Rightarrow> (Some e, [Fetch url])
      | None \<Rightarrow> (case check_files env base rest of (r, tr) \<Rightarrow> (r, Fetch url # tr)))"

definition checkEnvironment :: "environment \<Rightarrow> LibreOfficeConverter \<Rightarrow> thrown option \<times> effect list" where
  "checkEnvironment env this =
     (let isIsolated = crossOriginIsolated env; hasSAB = hasSharedArrayBuffer env in
      if \<not> truthy isIsolated \<or> \<not> hasSAB then (Some (environment_error isIsolated), [])
      else check_files env (basePath this) files)"

subsection \<open>\<open>initialize\<close>\<close>

text \<open>The invocation of callback \<open>cb\<close> with \<open>p\<close>, as an effect.\<close>

definition invocation :: "ProgressCallback \<Rightarrow> LibreOfficeConverter \<Rightarrow> LoadProgress \<Rightarrow> effect" where
  "invocation cb this p = Progress cb p (initialized this) (initializing this)"

text \<open>
  \<open>progressCallback?.(p)\<close> inside the \<open>try\<close> block of \<open>initialize\<close>: nothing happens
  without a callback; otherwise the callback is invoked, and what it throws (\<open>Some e\<close>)
  leaves the \<open>try\<close> block.
\<close>

definition notify ::
  "environment \<Rightarrow> ProgressCallback option \<Rightarrow> LibreOfficeConverter \<Rightarrow> LoadProgress
   \<Rightarrow> thrown option \<times> effect list" where
  "notify env progressCallback this p =
     (case progressCallback of
        None \<Rightarrow> (None, [])
      | Some cb \<Rightarrow> (callback env cb p, [invocation cb this p]))"

text \<open>The object the \<open>onProgress\<close> listener builds from an engine event.\<close>

definition forwarded :: "LoadProgress \<Rightarrow> LoadProgress" where
  "forwarded info =
     \<lparr>phase = phase info, percent = percent info,
      message = ''Loading conversion engine ('' @ show_int (math_round (percent info)) @ ''%)...''\<rparr>"

text \<open>
  The \<open>onProgress\<close> listener given to the engine, run on one engine event. The engine
  calls it, so what the callback throws there goes to the engine and not to
  \<open>initialize\<close>: the listener's only effect on the wrapper's side is the invocation.
\<close>

definition onProgress_listener ::
  "ProgressCallback option \<Rightarrow> LibreOfficeConverter \<Rightarrow> LoadProgress \<Rightarrow> effect list" where
  "onProgress_listener progressCallback this info =
     (case progressCallback of
        None \<Rightarrow> []
      | Some cb \<Rightarrow> (if \<not> initialized this then [invocation cb this (forwarded info)] else []))"

definition make_options :: "string \<Rightarrow> engine_options" where
  "make_options base =
     \<lparr>sofficeJs = base @ ''soffice.js?v='' @ ASSET_VERSION,
      sofficeWasm = base @ ''soffice.wasm?v='' @ ASSET_VERSION,
      sofficeData = base @ ''soffice.data?v='' @ ASSET_VERSION,
      sofficeWorkerJs = base @ ''soffice.worker.js?v='' @ ASSET_VERSION,
      browserWorkerJs = base @ ''browser.worker.global.js?v='' @ ASSET_VERSION,
      verbose = False\<rparr>"

definition progress_checking :: LoadProgress where
  "progress_checking = \<lparr>phase = ''loading'', percent = 0, message = ''Checking environment...''\<rparr>"

definition progress_loading :: LoadProgress where
  "progress_loading = \<lparr>phase = ''loading'', percent = 5, message = ''Loading conversion engine...''\<rparr>"

definition progress_ready :: LoadProgress where
  "progress_ready = \<lparr>phase = ''ready'', percent = 100, message = ''Conversion engine ready!''\<rparr>"

text \<open>
  The body of \<open>initialize\<close> from \<open>this.initializing = true\<close> to the end of the
  \<open>finally\<close> block, run without interruption by another call.
\<close>

definition initialize_cycle ::
  "environment \<Rightarrow> ProgressCallback option \<Rightarrow> LibreOfficeConverter \<Rightarrow> unit settled" where
  "initialize_cycle env onProgress this0 =
     (let this1 = this0\<lparr>initializing := True\<rparr> in
      case notify env onProgress this1 progress_checking of
        (Some e, t0) \<Rightarrow>
          \<lparr>outcome = Inl e, state = this1\<lparr>initializing := False\<rparr>, effects = t0\<rparr>
      | (None, t0) \<Rightarrow>
      (case checkEnvironment env this1 of
        (Some e, t1) \<Rightarrow>
          \<lparr>outcome = Inl e, state = this1\<lparr>initializing := False\<rparr>, effects = t0 @ t1\<rparr>
      | (None, t1) \<Rightarrow>
      (case notify env onProgress this1 progress_loading of
        (Some e, t2) \<Rightarrow>
          \<lparr>outcome = Inl e, state = this1\<lparr>initializing := False\<rparr>, effects = t0 @ t1 @ t2\<rparr>
      | (None, t2) \<Rightarrow>
          (let engine = \<lparr>options = make_options (basePath this1), captured = onProgress\<rparr>;
               this2 = this1\<lparr>converter := Some engine\<rparr>;
               t3 = [Construct (options engine), EngineInitialize]
                    @ concat (map (onProgress_listener onProgress this2) (engine_progress env)) in
           case engine_initialize env of
             Some e \<Rightarrow>
               \<lparr>outcome = Inl e, state = this2\<lparr>initializing := False\<rparr>,
                effects = t0 @ t1 @ t2 @ t3\<rparr>
           | None \<Rightarrow>
               (let this3 = this2\<lparr>initialized := True\<rparr> in
                case notify env onProgress this3 progress_ready of
                  (Some e, t4) \<Rightarrow>
                    \<lparr>outcome = Inl e, state = this3\<lparr>initializing := False\<rparr>,
                     effects = t0 @ t1 @ t2 @ t3 @ t4\<rparr>
                | (None, t4) \<Rightarrow>
                    (let this4 = this3\<lparr>converter := Some (engine\<lparr>captured := None\<rparr>)\<rparr> in
                     \<lparr>outcome = Inr (), state = this4\<lparr>initializing := False\<rparr>,
                      effects = t0 @ t1 @ t2 @ t3 @ t4\<rparr>))))))"

text \<open>
  The wait loop \<open>while (this.initializing) await ...\<close> of a call that finds another
  initialization in flight. Run on its own nothing clears the flag, and the loop does
  not return: its value is \<open>None\<close>.
\<close>

partial_function (option) wait_loop :: "LibreOfficeConverter \<Rightarrow> unit option" where
  "wait_loop this = (if initializing this then wait_loop this else Some ())"

definition initialize ::
  "environment \<Rightarrow> ProgressCallback option \<Rightarrow> LibreOfficeConverter \<Rightarrow> unit settled option" where
  "initialize env onProgress this =
     (if initialized this then Some \<lparr>outcome = Inr (), state = this, effects = []\<rparr>
      else if initializing this then
        (case wait_loop this of
           None \<Rightarrow> None
         | Some u \<Rightarrow> Some \<lparr>outcome = Inr (), state = this, effects = []\<rparr>)
      else Some (initialize_cycle env onProgress this))"

subsection \<open>\<open>convert\<close> and \<open>destroy\<close>\<close>

definition convert :: "environment \<Rightarrow> File \<Rightarrow> string \<Rightarrow> LibreOfficeConverter \<Rightarrow> Blob settled" where
  "convert env file outputFormat this =
     (case converter this of
        None \<Rightarrow> \<lparr>outcome = Inl (Error ''Converter not initialized''), state = this, effects = []\<rparr>
      | Some engine \<Rightarrow>
          (case arrayBuffer file of
             Inl e \<Rightarrow> \<lparr>outcome = Inl e, state = this, effects = []\<rparr>
           | Inr uint8Array \<Rightarrow>
               (let ext = extension (lower_beyond_ASCII env) (name file);
                    call = EngineConvert uint8Array outputFormat ext (name file) in
                case engine_convert env uint8Array outputFormat ext (name file) of
                  Inl e \<Rightarrow> \<lparr>outcome = Inl e, state = this, effects = [call]\<rparr>
                | Inr result \<Rightarrow>
                    \<lparr>outcome = Inr \<lparr>blob_parts = data result, blob_type = mimeType result\<rparr>,
                     state = this, effects = [call]\<rparr>)))"

definition convertToPdf :: "environment \<Rightarrow> File \<Rightarrow> LibreOfficeConverter \<Rightarrow> Blob settled" where
  "convertToPdf env file this = convert env file ''pdf'' this"

definition destroy :: "environment \<Rightarrow> LibreOfficeConverter \<Rightarrow> unit settled" where
  "destroy env this =
     (case converter this of
        None \<Rightarrow>
          \<lparr>outcome = Inr (), state = this\<lparr>converter := None, initialized := False\<rparr>, effects = []\<rparr>
      | Some engine \<Rightarrow>
          (case engine_destroy env of
             Some e \<Rightarrow> \<lparr>outcome = Inl e, state = this, effects = [EngineDestroy]\<rparr>
           | None \<Rightarrow>
               \<lparr>outcome = Inr (), state = this\<lparr>converter := None, initialized := False\<rparr>,
                effects = [EngineDestroy]\<rparr>))"

declare wait_loop.simps [code]

subsection \<open>The module-level singleton\<close>

text \<open>
  Objects live in a heap and are known by reference (their index); the module variable
  \<open>converterInstance\<close> holds a reference or \<open>null\<close>.
\<close>

type_synonym ref = nat

record module =
  heap :: "LibreOfficeConverter list"
  converterInstance :: "ref option"

definition getLibreOfficeConverter :: "string option \<Rightarrow> module \<Rightarrow> ref \<times> module" where
  "getLibreOfficeConverter arg m =
     (case converterInstance m of
        None \<Rightarrow>
          (let r = length (heap m) in
           (r, m\<lparr>heap := heap m @ [new_LibreOfficeConverter arg],
                 converterInstance := Some r\<rparr>))
      | Some r \<Rightarrow> (r, m))"

text \<open>
  What a program can do with the module: ask for the singleton, construct an instance
  of the exported class directly, and call a method on an instance it holds.
\<close>

datatype action =
    Get "string option"
  | New "string option"
  | Initialize ref environment "ProgressCallback option"
  | Convert ref environment File string
  | Destroy ref environment

text \<open>
  The state of the object \<open>r\<close> after a method call on it has settled; a call that never
  settles (the wait loop run on its own) has changed nothing.
\<close>

definition invoke :: "ref \<Rightarrow> (LibreOfficeConverter \<Rightarrow> LibreOfficeConverter) \<Rightarrow> module \<Rightarrow> module" where
  "invoke r f m = (if r < length (heap m) then m\<lparr>heap := (heap m)[r := f (heap m ! r)]\<rparr> else m)"

fun perform :: "action \<Rightarrow> module \<Rightarrow> ref option \<times> module" where
  "perform (Get arg) m =
     (case getLibreOfficeConverter arg m of (r, m') \<Rightarrow> (Some r, m'))"
| "perform (New arg) m =
     (Some (length (heap m)), m\<lparr>heap := heap m @ [new_LibreOfficeConverter arg]\<rparr>)"
| "perform (Initialize r env onProgress) m =
     (None, invoke r (\<lambda>this. case initialize env onProgress this of
                               None \<Rightarrow> this
                             | Some s \<Rightarrow> state s) m)"
| "perform (Convert r env file outputFormat) m =
     (None, invoke r (\<lambda>this. state (convert env file outputFormat this)) m)"
| "perform (Destroy r env) m =
     (None, invoke r (\<lambda>this. state (destroy env this)) m)"

text \<open>A program run: the references returned by its calls, in order, and the final module.\<close>

fun perform_all :: "action list \<Rightarrow> module \<Rightarrow> ref option list \<times> module" where
  "perform_all [] m = ([], m)"
| "perform_all (a # as) m =
     (case perform a m of (r, m') \<Rightarrow>
        (case perform_all as m' of (rs, m'') \<Rightarrow> (r # rs, m'')))"

definition fresh_module :: module where
  "fresh_module = \<lparr>heap = [], converterInstance = None\<rparr>"

subsection \<open>Overlapping calls: the methods cut at their \<open>await\<close>s\<close>

text \<open>
  JavaScript runs a call without interruption up to its next \<open>await\<close>; there other
  calls may run. A call in progress is a task: the answers its collaborators will give
  and the point where it is suspended.
\<close>

datatype pc =
    Init_Call "ProgressCallback option"
  | Init_Wait
  | Init_Fetch "ProgressCallback option" string "string list"
  | Init_Rejected thrown
  | Init_Checked "ProgressCallback option"
  | Init_Boot "ProgressCallback option" "LoadProgress list"
  | Convert_Call File string
  | Convert_Buffer File string
  | Convert_Engine "thrown + engine_result"
  | Destroy_Call
  | Destroy_Engine
  | Settled "thrown + Blob option"

text \<open>
  \<^item> \<open>Init_Call\<close>, \<open>Convert_Call\<close>, \<open>Destroy_Call\<close>: the call has not been made yet
    (a call whose callback throws on the first event is rejected before its first
    \<open>await\<close>: it goes from \<open>Init_Call\<close> to \<open>Settled\<close> in one stretch);
  \<^item> \<open>Init_Wait\<close>: in the wait loop, awaiting the 100 ms timer;
  \<^item> \<open>Init_Fetch cb file rest\<close>: in \<open>checkEnvironment\<close>, awaiting the \<open>HEAD\<close> request for
    \<open>file\<close>, with \<open>rest\<close> still to check;
  \<^item> \<open>Init_Rejected e\<close>: \<open>checkEnvironment\<close> has thrown \<open>e\<close>; \<open>initialize\<close> awaits its
    rejected promise;
  \<^item> \<open>Init_Checked\<close>: \<open>checkEnvironment\<close> has returned; \<open>initialize\<close> awaits its promise;
  \<^item> \<open>Init_Boot cb infos\<close>: awaiting \<open>this.converter.initialize()\<close>; the engine has
    still to fire \<open>infos\<close>;
  \<^item> \<open>Convert_Buffer\<close>: awaiting \<open>file.arrayBuffer()\<close>;
  \<^item> \<open>Convert_Engine r\<close>: awaiting the engine's \<open>convert\<close>, which will answer \<open>r\<close>;
  \<^item> \<open>Destroy_Engine\<close>: awaiting the engine's \<open>destroy\<close>;
  \<^item> \<open>Settled r\<close>: the promise of the call is resolved (\<open>Inr\<close>) or rejected (\<open>Inl\<close>).
\<close>

text \<open>Reading a property of \<open>null\<close> throws a \<open>TypeError\<close> (wording of the JavaScript engine).\<close>

definition null_dereference :: thrown where
  "null_dereference =
     Foreign True ''Cannot read properties of null (reading convert)''
                  ''TypeError: Cannot read properties of null (reading convert)''"

text \<open>The loop of \<open>checkEnvironment\<close> moving to its next file: the request is issued.\<close>

definition next_file ::
  "ProgressCallback option \<Rightarrow> LibreOfficeConverter \<Rightarrow> string list \<Rightarrow> pc \<times> LibreOfficeConverter \<times> effect list" where
  "next_file cb this fs =
     (case fs of
        [] \<Rightarrow> (Init_Checked cb, this, [])
      | file # rest \<Rightarrow> (Init_Fetch cb file rest, this, [Fetch (asset_url (basePath this) file)]))"

text \<open>One uninterrupted stretch of a task, from where it is suspended to its next \<open>await\<close>.\<close>

fun advance :: "environment \<Rightarrow> pc \<Rightarrow> LibreOfficeConverter \<Rightarrow> pc \<times> LibreOfficeConverter \<times> effect list" where
  "advance env (Init_Call onProgress) this =
     (if initialized this then (Settled (Inr None), this, [])
      else if initializing this then (Init_Wait, this, [])
      else
        (let this1 = this\<lparr>initializing := True\<rparr>;
             isIsolated = crossOriginIsolated env; hasSAB = hasSharedArrayBuffer env in
         case notify env onProgress this1 progress_checking of
           (Some e, t0) \<Rightarrow> (Settled (Inl e), this1\<lparr>initializing := False\<rparr>, t0)
         | (None, t0) \<Rightarrow>
             (if \<not> truthy isIsolated \<or> \<not> hasSAB then
                (Init_Rejected (environment_error isIsolated), this1, t0)
              else (case next_file onProgress this1 files of (p, this2, t1) \<Rightarrow> (p, this2, t0 @ t1)))))"
| "advance env Init_Wait this =
     (if initializing this then (Init_Wait, this, []) else (Settled (Inr None), this, []))"
| "advance env (Init_Fetch cb file rest) this =
     (case check_file file (fetch env (asset_url (basePath this) file)) of
        Some e \<Rightarrow> (Init_Rejected e, this, [])
      | None \<Rightarrow> next_file cb this rest)"
| "advance env (Init_Rejected e) this = (Settled (Inl e), this\<lparr>initializing := False\<rparr>, [])"
| "advance env (Init_Checked cb) this =
     (case notify env cb this progress_loading of
        (Some e, t2) \<Rightarrow> (Settled (Inl e), this\<lparr>initializing := False\<rparr>, t2)
      | (None, t2) \<Rightarrow>
          (let engine = \<lparr>options = make_options (basePath this), captured = cb\<rparr>;
               this2 = this\<lparr>converter := Some engine\<rparr> in
           (Init_Boot cb (engine_progress env), this2,
            t2 @ [Construct (options engine), EngineInitialize])))"
| "advance env (Init_Boot cb (info # infos)) this =
     (Init_Boot cb infos, this, onProgress_listener cb this info)"
| "advance env (Init_Boot cb []) this =
     (case engine_initialize env of
        Some e \<Rightarrow> (Settled (Inl e), this\<lparr>initializing := False\<rparr>, [])
      | None \<Rightarrow>
          (let this3 = this\<lparr>initialized := True\<rparr> in
           case notify env cb this3 progress_ready of
             (Some e, t4) \<Rightarrow> (Settled (Inl e), this3\<lparr>initializing := False\<rparr>, t4)
           | (None, t4) \<Rightarrow>
               (let this4 = this3\<lparr>converter :=
                              map_option (\<lambda>engine. engine\<lparr>captured := None\<rparr>) (converter this3)\<rparr> in
                (Settled (Inr None), this4\<lparr>initializing := False\<rparr>, t4))))"
| "advance env (Convert_Call file outputFormat) this =
     (if converter this = None then (Settled (Inl (Error ''Converter not initialized'')), this, [])
      else (Convert_Buffer file outputFormat, this, []))"
| "advance env (Convert_Buffer file outputFormat) this =
     (case arrayBuffer file of
        Inl e \<Rightarrow> (Settled (Inl e), this, [])
      | Inr uint8Array \<Rightarrow>
          (let ext = extension (lower_beyond_ASCII env) (name file) in
           if converter this = None then (Settled (Inl null_dereference), this, [])
           else (Convert_Engine (engine_convert env uint8Array outputFormat ext (name file)), this,
                 [EngineConvert uint8Array outputFormat ext (name file)])))"
| "advance env (Convert_Engine r) this =
     (case r of
        Inl e \<Rightarrow> (Settled (Inl e), this, [])
      | Inr result \<Rightarrow>
          (Settled (Inr (Some \<lparr>blob_parts = data result, blob_type = mimeType result\<rparr>)), this, []))"
| "advance env Destroy_Call this =
     (if converter this \<noteq> None then (Destroy_Engine, this, [EngineDestroy])
      else (Settled (Inr None), this\<lparr>converter := None, initialized := False\<rparr>, []))"
| "advance env Destroy_Engine this =
     (case engine_destroy env of
        Some e \<Rightarrow> (Settled (Inl e), this, [])
      | None \<Rightarrow> (Settled (Inr None), this\<lparr>converter := None, initialized := False\<rparr>, []))"
| "advance env (Settled r) this = (Settled r, this, [])"

record task =
  answers :: environment
  point :: pc

record world =
  object :: LibreOfficeConverter
  trace :: "effect list"
  tasks :: "task list"

text \<open>The scheduler resumes task \<open>i\<close> (nothing happens if there is no such task).\<close>

definition resume :: "nat \<Rightarrow> world \<Rightarrow> world" where
  "resume i w =
     (if i < length (tasks w) then
        (case advance (answers (tasks w ! i)) (point (tasks w ! i)) (object w) of
           (p, this', t) \<Rightarrow>
             \<lparr>object = this', trace = trace w @ t,
              tasks = (tasks w)[i := (tasks w ! i)\<lparr>point := p\<rparr>]\<rparr>)
      else w)"

text \<open>A schedule is the order in which tasks are resumed.\<close>

definition run :: "nat list \<Rightarrow> world \<Rightarrow> world" where
  "run schedule w = foldl (\<lambda>w i. resume i w) w schedule"

text \<open>
  \<open>N\<close> calls of \<open>initialize\<close> made one after the other on a new instance before any of
  them is resumed, as in \<open>Promise.all([c.initialize(f1), ..., c.initialize(fN)])\<close>.
\<close>

definition concurrent_initialize ::
  "string option \<Rightarrow> (environment \<times> ProgressCallback option) list \<Rightarrow> world" where
  "concurrent_initialize arg calls =
     run [0 ..< length calls]
       \<lparr>object = new_LibreOfficeConverter arg, trace = [],
        tasks = map (\<lambda>(env, onProgress). \<lparr>answers = env, point = Init_Call onProgress\<rparr>) calls\<rparr>"

text \<open>How often the engine's boot procedure (\<open>converter.initialize()\<close>) has been started.\<close>

definition booted :: "effect list \<Rightarrow> nat" where
  "booted t = length (filter (\<lambda>e. e = EngineInitialize) t)"

definition boots :: "world \<Rightarrow> nat" where
  "boots w = booted (trace w)"

definition succeeded :: "task \<Rightarrow> bool" where
  "succeeded t = (case point t of Settled (Inr v) \<Rightarrow> True | _ \<Rightarrow> False)"

definition failed :: "task \<Rightarrow> bool" where
  "failed t = (case point t of Settled (Inl e) \<Rightarrow> True | _ \<Rightarrow> False)"

subsection \<open>Observations on effect lists\<close>

text \<open>The progress objects a callback has received, in order.\<close>

fun received :: "ProgressCallback \<Rightarrow> effect list \<Rightarrow> LoadProgress list" where
  "received cb [] = []"
| "received cb (Progress c p a b # es) = (if c = cb then p # received cb es else received cb es)"
| "received cb (e # es) = received cb es"

fun is_Fetch :: "effect \<Rightarrow> bool" where
  "is_Fetch (Fetch url) = True"
| "is_Fetch e = False"

fun is_engine_effect :: "effect \<Rightarrow> bool" where
  "is_engine_effect (Construct opts) = True"
| "is_engine_effect EngineInitialize = True"
| "is_engine_effect (EngineConvert d out inp n) = True"
| "is_engine_effect EngineDestroy = True"
| "is_engine_effect e = False"

subsection \<open>Example collaborators\<close>

text \<open>A page that is isolated, serves every asset and hosts an engine that works and echoes.\<close>

definition healthy :: environment where
  "healthy =
     \<lparr>crossOriginIsolated = Some True, hasSharedArrayBuffer = True,
      fetch = (\<lambda>url. Response True 200),
      callback = (\<lambda>cb p. None),
      lower_beyond_ASCII = (\<lambda>s. s),
      engine_progress = [],
      engine_initialize = None,
      engine_convert = (\<lambda>d out inp n. Inr \<lparr>data = d, mimeType = ''application/pdf''\<rparr>),
      engine_destroy = None\<rparr>"

definition boot_fails :: environment where
  "boot_fails = healthy\<lparr>engine_initialize := Some (Error ''worker crashed'')\<rparr>"

definition no_SharedArrayBuffer :: environment where
  "no_SharedArrayBuffer = healthy\<lparr>hasSharedArrayBuffer := False\<rparr>"

definition shutdown_fails :: environment where
  "shutdown_fails = healthy\<lparr>engine_destroy := Some (Error ''worker gone'')\<rparr>"

definition readme :: File where
  "readme = \<lparr>name = ''README'', arrayBuffer = Inr [1, 2, 3]\<rparr>"

text \<open>A \<open>fetch\<close> that fails for one asset by throwing an \<open>Error\<close> with the loop's own prefix.\<close>

definition odd_rejection :: environment where
  "odd_rejection =
     healthy\<lparr>fetch := (\<lambda>url. if url = asset_url LIBREOFFICE_PATH ''soffice.data''
                              then Rejects (Error ''Required file'')
                              else Response True 200)\<rparr>"

definition data_bundle_missing :: environment where
  "data_bundle_missing =
     healthy\<lparr>fetch := (\<lambda>url. if url = asset_url LIBREOFFICE_PATH ''soffice.data''
                              then Response False 404
                              else Response True 200)\<rparr>"

text \<open>A network on which the request for the engine's binary fails.\<close>

definition wasm_unreachable :: environment where
  "wasm_unreachable =
     healthy\<lparr>fetch := (\<lambda>url. if url = asset_url LIBREOFFICE_PATH ''soffice.wasm''
                              then Rejects (Foreign True ''Failed to fetch'' ''TypeError: Failed to fetch'')
                              else Response True 200)\<rparr>"

text \<open>A page that is served without the isolation headers.\<close>

definition not_isolated :: environment where
  "not_isolated = healthy\<lparr>crossOriginIsolated := Some False\<rparr>"

text \<open>Callback 1 throws when it is handed the first event; callback 2 when it is handed the last.\<close>

definition throwing_callbacks :: environment where
  "throwing_callbacks =
     healthy\<lparr>callback := (\<lambda>cb p. if cb = 1 \<and> p = progress_checking then Some (Error ''no progress bar'')
                                  else if cb = 2 \<and> p = progress_ready then Some (Error ''render failed'')
                                  else None)\<rparr>"

text \<open>An engine whose progress goes backwards.\<close>

definition regressing :: environment where
  "regressing =
     healthy\<lparr>engine_progress :=
       [\<lparr>phase = ''loading'', percent = 50, message = ''half''\<rparr>,
        \<lparr>phase = ''loading'', percent = 30, message = ''less''\<rparr>]\<rparr>"

definition steady :: environment where
  "steady =
     healthy\<lparr>engine_progress :=
       [\<lparr>phase = ''loading'', percent = 30, message = ''some''\<rparr>,
        \<lparr>phase = ''initializing'', percent = 50, message = ''half''\<rparr>]\<rparr>"

text \<open>\<open>mentions msg s\<close>: the text \<open>s\<close> occurs in \<open>msg\<close>.\<close>

fun mentions :: "string \<Rightarrow> string \<Rightarrow> bool" where
  "mentions [] s = (s = [])"
| "mentions (c # cs) s = (startsWith (c # cs) s \<or> mentions cs s)"

text \<open>
  A progress event the engine of this instance fires after \<open>initialize\<close> has returned:
  its listener runs with the current value of the variable it captured.
\<close>

definition late_event :: "LibreOfficeConverter \<Rightarrow> LoadProgress \<Rightarrow> effect list" where
  "late_event this info =
     (case converter this of
        None \<Rightarrow> []
      | Some engine \<Rightarrow> onProgress_listener (captured engine) this info)"

subsection \<open>Invariants used in the proofs\<close>

text \<open>The module variable holds \<open>r\<close>, a live object whose base path is \<open>b\<close>.\<close>

definition singleton_is :: "ref \<Rightarrow> string \<Rightarrow> module \<Rightarrow> bool" where
  "singleton_is r b m =
     (converterInstance m = Some r \<and> r < length (heap m) \<and> basePath (heap m ! r) = b)"

definition flags_exclusive :: "LibreOfficeConverter \<Rightarrow> bool" where
  "flags_exclusive this = (\<not> (initialized this \<and> initializing this))"

text \<open>
  A callback invocation other than the wrapper's final \<open>ready\<close> event saw the two flags
  not both true.
\<close>

fun exclusive_when_observed :: "effect \<Rightarrow> bool" where
  "exclusive_when_observed (Progress cb p a b) = (p = progress_ready \<or> \<not> (a \<and> b))"
| "exclusive_when_observed e = True"

fun destroying :: "pc \<Rightarrow> bool" where
  "destroying Destroy_Call = True"
| "destroying Destroy_Engine = True"
| "destroying p = False"

text \<open>
  Where the call that runs the cycle can be, with the number of engine boots so far and
  the flags that go with each point.
\<close>

fun leader_at :: "pc \<Rightarrow> nat \<Rightarrow> LibreOfficeConverter \<Rightarrow> bool" where
  "leader_at (Init_Fetch cb file rest) n this = (n = 0 \<and> initializing this \<and> \<not> initialized this)"
| "leader_at (Init_Rejected e) n this = (n = 0 \<and> initializing this \<and> \<not> initialized this)"
| "leader_at (Init_Checked cb) n this = (n = 0 \<and> initializing this \<and> \<not> initialized this)"
| "leader_at (Init_Boot cb infos) n this = (n = 1 \<and> initializing this \<and> \<not> initialized this)"
| "leader_at (Settled (Inr v)) n this = (n = 1 \<and> \<not> initializing this)"
| "leader_at (Settled (Inl e)) n this = (n \<le> 1 \<and> \<not> initializing this)"
| "leader_at p n this = False"

text \<open>Where a call that found the cycle in flight can be.\<close>

fun follower_at :: "pc \<Rightarrow> bool" where
  "follower_at Init_Wait = True"
| "follower_at (Settled (Inr v)) = True"
| "follower_at p = False"

text \<open>
  Among concurrent calls, the calls before call \<open>l\<close> were rejected before their first
  \<open>await\<close> (their callback threw on the first event), call \<open>l\<close> runs the cycle, and the
  calls after it found the cycle in flight.
\<close>

definition one_cycle :: "nat \<Rightarrow> world \<Rightarrow> bool" where
  "one_cycle l w =
     (l < length (tasks w)
      \<and> (\<forall>j < l. failed (tasks w ! j))
      \<and> leader_at (point (tasks w ! l)) (boots w) (object w)
      \<and> (\<forall>j. l < j \<and> j < length (tasks w) \<longrightarrow> follower_at (point (tasks w ! j))))"

text \<open>Every call was rejected before its first \<open>await\<close>; no cycle got under way.\<close>

definition no_cycle :: "world \<Rightarrow> bool" where
  "no_cycle w = (boots w = 0 \<and> (\<forall>j < length (tasks w). failed (tasks w ! j)))"

text \<open>The first \<open>k\<close> of the concurrent calls have been made, the others not yet.\<close>

definition issued :: "nat \<Rightarrow> world \<Rightarrow> bool" where
  "issued k w =
     (k \<le> length (tasks w)
      \<and> (\<forall>j. k \<le> j \<and> j < length (tasks w) \<longrightarrow> (\<exists>cb. point (tasks w ! j) = Init_Call cb))
      \<and> \<not> initialized (object w)
      \<and> (if initializing (object w) then
            (\<exists>l < k. (\<forall>j < l. failed (tasks w ! j))
                    \<and> leader_at (point (tasks w ! l)) (boots w) (object w)
                    \<and> (\<forall>j. l < j \<and> j < k \<longrightarrow> point (tasks w ! j) = Init_Wait))
          else boots w = 0 \<and> (\<forall>j < k. failed (tasks w ! j))))"

text \<open>
  The points of a call that has started a cycle or has settled, and an upper bound on
  the number of resumptions such a call still needs before it settles.
\<close>

fun under_way :: "pc \<Rightarrow> bool" where
  "under_way (Init_Fetch cb file rest) = True"
| "under_way (Init_Rejected e) = True"
| "under_way (Init_Checked cb) = True"
| "under_way (Init_Boot cb infos) = True"
| "under_way (Settled r) = True"
| "under_way p = False"

fun steps_left :: "environment \<Rightarrow> pc \<Rightarrow> nat" where
  "steps_left env (Init_Fetch cb file rest) = length rest + 3 + length (engine_progress env)"
| "steps_left env (Init_Rejected e) = 1"
| "steps_left env (Init_Checked cb) = 2 + length (engine_progress env)"
| "steps_left env (Init_Boot cb infos) = 1 + length infos"
| "steps_left env p = 0"

definition settled :: "task \<Rightarrow> bool" where
  "settled t = (succeeded t \<or> failed t)"

text \<open>The callback, if there is one, returns normally when invoked with \<open>p\<close>.\<close>

definition returns :: "environment \<Rightarrow> ProgressCallback option \<Rightarrow> LoadProgress \<Rightarrow> bool" where
  "returns env progressCallback p =
     (case progressCallback of None \<Rightarrow> True | Some cb \<Rightarrow> callback env cb p = None)"

text \<open>
  The existence check of an asset has failed: the response is not \<open>ok\<close>, or the request
  was rejected (a network failure).
\<close>

fun unavailable :: "fetch_outcome \<Rightarrow> bool" where
  "unavailable (Response ok status) = (\<not> ok)"
| "unavailable (Rejects e) = True"

text \<open>A world in which a single call is in progress.\<close>

definition single :: "environment \<Rightarrow> pc \<Rightarrow> LibreOfficeConverter \<Rightarrow> effect list \<Rightarrow> world" where
  "single env p this t = \<lparr>object = this, trace = t, tasks = [\<lparr>answers = env, point = p\<rparr>]\<rparr>"

text \<open>The promise of an \<open>initialize\<close> call once the run \<open>r\<close> of its body has ended.\<close>

definition promise_of :: "unit settled \<Rightarrow> pc" where
  "promise_of r = Settled (case outcome r of Inl e \<Rightarrow> Inl e | Inr u \<Rightarrow> Inr None)"

text \<open>The page is not cross-origin isolated, or \<open>SharedArrayBuffer\<close> is undefined.\<close>

definition unisolated :: "environment \<Rightarrow> bool" where
  "unisolated env = (\<not> truthy (crossOriginIsolated env) \<or> \<not> hasSharedArrayBuffer env)"

text \<open>Where an \<open>initialize\<close> call can be when the page is not isolated.\<close>

fun stalled_at :: "pc \<Rightarrow> bool" where
  "stalled_at (Init_Call cb) = True"
| "stalled_at Init_Wait = True"
| "stalled_at (Init_Rejected e) = True"
| "stalled_at (Settled r) = True"
| "stalled_at p = False"

definition stalled :: "world \<Rightarrow> bool" where
  "stalled w =
     ((\<forall>j < length (tasks w). unisolated (answers (tasks w ! j)) \<and> stalled_at (point (tasks w ! j)))
      \<and> filter is_Fetch (trace w) = [] \<and> filter is_engine_effect (trace w) = [])"


section \<open>Properties\<close>

subsection \<open>Supporting facts\<close>

lemmas example_defs =
  healthy_def boot_fails_def no_SharedArrayBuffer_def shutdown_fails_def readme_def
  odd_rejection_def data_bundle_missing_def regressing_def steady_def
  wasm_unreachable_def not_isolated_def throwing_callbacks_def

lemmas cycle_defs =
  initialize_cycle_def new_LibreOfficeConverter_def checkEnvironment_def files_def
  check_file_def notify_def invocation_def truthy_def isReady_def Let_def

lemma wait_loop_Some:
  assumes "wait_loop this = Some y"
  shows "\<not> initializing this"
  by (rule wait_loop.raw_induct [where P = "\<lambda>x y. \<not> initializing x", OF _ assms])
     (simp split: if_splits)

lemma wait_loop_None: "initializing this \<Longrightarrow> wait_loop this = None"
  using wait_loop_Some [of this] by (cases "wait_loop this") auto

lemma initialize_fresh:
  "\<not> initialized this \<Longrightarrow> \<not> initializing this \<Longrightarrow>
   initialize env cb this = Some (initialize_cycle env cb this)"
  by (simp add: initialize_def)

lemma initialize_in_flight_never_settles:
  "\<not> initialized this \<Longrightarrow> initializing this \<Longrightarrow> initialize env cb this = None"
  by (simp add: initialize_def wait_loop_None)

lemma split_dot_without_dot: "CHR ''.'' \<notin> set n \<Longrightarrow> split_dot n = [n]"
  by (induction n) auto

lemma split_dot_not_empty: "split_dot n \<noteq> []"
  by (induction n) (auto split: list.splits)

lemma split_dot_pieces:
  "CHR ''.'' \<notin> set e \<Longrightarrow> \<exists>p ps. split_dot (b @ CHR ''.'' # e) = p # ps @ [e]"
  by (induction b) (auto simp: split_dot_without_dot)

lemma last_split_dot: "CHR ''.'' \<notin> set e \<Longrightarrow> last (split_dot (b @ CHR ''.'' # e)) = e"
  using split_dot_pieces [of e b] by auto

text \<open>
  With a dot in the name, the format is what follows the last dot, lower-cased; with no
  dot, it is the whole name, lower-cased.
\<close>

lemma extension_after_last_dot:
  "CHR ''.'' \<notin> set e \<Longrightarrow> extension beyond (b @ CHR ''.'' # e) = toLowerCase beyond e"
  by (simp add: extension_def pop_def split_dot_not_empty last_split_dot)

lemma extension_without_dot:
  "CHR ''.'' \<notin> set n \<Longrightarrow> extension beyond n = toLowerCase beyond n"
  by (simp add: extension_def pop_def split_dot_without_dot)

lemma convert_without_handle:
  "converter this = None \<Longrightarrow>
   convert env file outputFormat this =
     \<lparr>outcome = Inl (Error ''Converter not initialized''), state = this, effects = []\<rparr>"
  by (simp add: convert_def)

lemma check_files_first_failure:
  "\<forall>f\<in>set before. check_file f (fetch env (asset_url base f)) = None \<Longrightarrow>
   check_file file (fetch env (asset_url base file)) = Some err \<Longrightarrow>
   check_files env base (before @ file # rest)
     = (Some err, map (\<lambda>f. Fetch (asset_url base f)) (before @ [file]))"
  by (induction before) (auto simp: Let_def)

lemma startsWith_append: "startsWith (p @ s) p"
  by (simp add: startsWith_def)

lemma filter_engine_fetches: "filter is_engine_effect (map (\<lambda>f. Fetch (g f)) fs) = []"
  by (induction fs) auto

lemma filter_engine_notify: "filter is_engine_effect (snd (notify env cb this p)) = []"
  by (cases cb) (auto simp: notify_def invocation_def)

lemma filter_fetch_notify: "filter is_Fetch (snd (notify env cb this p)) = []"
  by (cases cb) (auto simp: notify_def invocation_def)

lemma notify_returns: "fst (notify env cb this p) = None \<longleftrightarrow> returns env cb p"
  by (cases cb) (auto simp: notify_def returns_def)

lemma notify_throws: "notify env cb this p = (Some e, t) \<Longrightarrow> \<not> returns env cb p"
  by (cases cb) (auto simp: notify_def returns_def)

lemma received_append: "received cb (xs @ ys) = received cb xs @ received cb ys"
  by (induction cb xs rule: received.induct) auto

lemma received_notify: "received cb (snd (notify env (Some cb) this p)) = [p]"
  by (simp add: notify_def invocation_def)

lemma check_files_effects:
  "check_files env base fs = (r, tr) \<Longrightarrow> received cb tr = [] \<and> filter is_engine_effect tr = []"
  by (induction fs arbitrary: r tr) (auto simp: Let_def split: option.splits prod.splits)

lemma checkEnvironment_effects:
  "checkEnvironment env this = (r, tr) \<Longrightarrow> received cb tr = [] \<and> filter is_engine_effect tr = []"
  by (auto simp: checkEnvironment_def Let_def check_files_effects split: if_splits)

lemma received_listener:
  "\<not> initialized this \<Longrightarrow>
   received cb (concat (map (onProgress_listener (Some cb) this) infos)) = map forwarded infos"
  by (induction infos) (auto simp: onProgress_listener_def invocation_def)

lemma forwarded_not_ready: "forwarded info \<noteq> progress_ready"
  by (simp add: forwarded_def progress_ready_def)

lemma count_forwarded: "count_list (map forwarded infos) progress_ready = 0"
  by (induction infos) (simp_all add: forwarded_not_ready)

lemma percent_forwarded: "map percent (map forwarded infos) = map percent infos"
  by (simp add: forwarded_def)

lemma sorted_between:
  fixes xs :: "rat list"
  assumes "sorted xs" and "\<forall>x\<in>set xs. 5 \<le> x \<and> x \<le> 100"
  shows "sorted (0 # 5 # xs @ [100])"
  using assms by (auto simp: sorted_append)

lemma basePath_initialize_cycle: "basePath (state (initialize_cycle env cb this)) = basePath this"
  by (simp add: initialize_cycle_def Let_def split: prod.splits option.splits)

lemma basePath_initialize:
  "basePath (case initialize env cb this of None \<Rightarrow> this | Some s \<Rightarrow> state s) = basePath this"
  by (simp add: initialize_def basePath_initialize_cycle split: option.splits)

lemma basePath_convert: "basePath (state (convert env file out this)) = basePath this"
  by (simp add: convert_def Let_def split: option.splits sum.splits)

lemma basePath_destroy: "basePath (state (destroy env this)) = basePath this"
  by (simp add: destroy_def split: option.splits)

lemma invoke_keeps_singleton:
  assumes "singleton_is r b m" and "\<And>this. basePath (f this) = basePath this"
  shows "singleton_is r b (invoke r' f m)"
  using assms by (auto simp: singleton_is_def invoke_def nth_list_update)

lemma perform_keeps_singleton:
  "singleton_is r b m \<Longrightarrow> singleton_is r b (snd (perform a m))"
proof (cases a)
  case (Get arg)
  assume "singleton_is r b m"
  then show ?thesis using Get by (simp add: singleton_is_def getLibreOfficeConverter_def)
next
  case (New arg)
  assume "singleton_is r b m"
  then show ?thesis using New by (simp add: singleton_is_def nth_append)
next
  case (Initialize r' env cb)
  assume "singleton_is r b m"
  then show ?thesis using Initialize
    by (simp add: invoke_keeps_singleton basePath_initialize)
next
  case (Convert r' env f out)
  assume "singleton_is r b m"
  then show ?thesis using Convert
    by (simp add: invoke_keeps_singleton basePath_convert)
next
  case (Destroy r' env)
  assume "singleton_is r b m"
  then show ?thesis using Destroy
    by (simp add: invoke_keeps_singleton basePath_destroy)
qed

lemma perform_all_keeps_singleton:
  "singleton_is r b m \<Longrightarrow> singleton_is r b (snd (perform_all as m))"
proof (induction as arbitrary: m)
  case Nil
  then show ?case by simp
next
  case (Cons a as)
  from Cons.prems have "singleton_is r b (snd (perform a m))"
    by (rule perform_keeps_singleton)
  then have "singleton_is r b (snd (perform_all as (snd (perform a m))))"
    by (rule Cons.IH)
  then show ?case
    by (cases "perform a m"; cases "perform_all as (snd (perform a m))") simp
qed

lemma run_Nil [simp]: "run [] w = w"
  by (simp add: run_def)

lemma run_Cons [simp]: "run (i # sched) w = run sched (resume i w)"
  by (simp add: run_def)

lemma run_append: "run (xs @ ys) w = run ys (run xs w)"
  by (simp add: run_def)

lemma length_tasks_resume [simp]: "length (tasks (resume i w)) = length (tasks w)"
  by (simp add: resume_def split: prod.splits)

lemma resume_other: "j \<noteq> i \<Longrightarrow> tasks (resume i w) ! j = tasks w ! j"
  by (simp add: resume_def split: prod.splits)

lemma resume_beyond: "\<not> i < length (tasks w) \<Longrightarrow> resume i w = w"
  by (simp add: resume_def)

lemma resume_self:
  assumes "i < length (tasks w)"
    and "advance (answers (tasks w ! i)) (point (tasks w ! i)) (object w) = (p, this', t)"
  shows "object (resume i w) = this'" and "trace (resume i w) = trace w @ t"
    and "point (tasks (resume i w) ! i) = p"
    and "answers (tasks (resume i w) ! i) = answers (tasks w ! i)"
  using assms by (simp_all add: resume_def)

lemma advance_exclusive:
  assumes "flags_exclusive this" and "advance env p this = (p', this', t)"
  shows "flags_exclusive this'" and "\<forall>e\<in>set t. exclusive_when_observed e"
    and "initialized this \<Longrightarrow> \<not> destroying p \<Longrightarrow> initialized this'"
  using assms
  by (induction env p this rule: advance.induct;
      auto simp: flags_exclusive_def notify_def invocation_def onProgress_listener_def
                 next_file_def Let_def
           split: if_splits option.splits sum.splits list.splits prod.splits)+


lemma resume_exclusive:
  assumes "flags_exclusive (object w)" and "\<forall>e\<in>set (trace w). exclusive_when_observed e"
  shows "flags_exclusive (object (resume i w)) \<and> (\<forall>e\<in>set (trace (resume i w)). exclusive_when_observed e)"
proof (cases "i < length (tasks w)")
  case False
  then show ?thesis using assms by (simp add: resume_beyond)
next
  case True
  obtain p this' t where adv:
    "advance (answers (tasks w ! i)) (point (tasks w ! i)) (object w) = (p, this', t)"
    by (cases "advance (answers (tasks w ! i)) (point (tasks w ! i)) (object w)")
  from advance_exclusive(1,2) [OF assms(1) adv] assms(2) resume_self(1,2) [OF True adv]
  show ?thesis by auto
qed

lemma run_exclusive:
  "flags_exclusive (object w) \<Longrightarrow> \<forall>e\<in>set (trace w). exclusive_when_observed e \<Longrightarrow>
   flags_exclusive (object (run sched w)) \<and> (\<forall>e\<in>set (trace (run sched w)). exclusive_when_observed e)"
proof (induction sched arbitrary: w)
  case Nil
  then show ?case by simp
next
  case (Cons i sched)
  from resume_exclusive [OF Cons.prems] Cons.IH [of "resume i w"]
  show ?case by simp
qed

lemma resume_keeps_initialized:
  assumes "flags_exclusive (object w)" and "initialized (object w)"
    and "i < length (tasks w) \<longrightarrow> \<not> destroying (point (tasks w ! i))"
  shows "initialized (object (resume i w))"
proof (cases "i < length (tasks w)")
  case False
  then show ?thesis using assms by (simp add: resume_beyond)
next
  case True
  obtain p this' t where adv:
    "advance (answers (tasks w ! i)) (point (tasks w ! i)) (object w) = (p, this', t)"
    by (cases "advance (answers (tasks w ! i)) (point (tasks w ! i)) (object w)")
  from advance_exclusive(3) [OF assms(1) adv assms(2)] assms(3) True resume_self(1) [OF True adv]
  show ?thesis by simp
qed

lemma booted_append [simp]: "booted (xs @ ys) = booted xs + booted ys"
  by (simp add: booted_def)

lemma booted_simps [simp]:
  "booted [] = 0"
  "booted (EngineInitialize # t) = Suc (booted t)"
  "booted (Fetch url # t) = booted t"
  "booted (Construct opts # t) = booted t"
  "booted (Progress cb p a b # t) = booted t"
  by (simp_all add: booted_def)

lemma boots_resume:
  assumes "i < length (tasks w)"
    and "advance (answers (tasks w ! i)) (point (tasks w ! i)) (object w) = (p, this', t)"
  shows "boots (resume i w) = boots w + booted t"
  using resume_self(2) [OF assms] by (simp add: boots_def)

lemma booted_notify [simp]: "booted (snd (notify env cb this p)) = 0"
  by (cases cb) (simp_all add: notify_def invocation_def)

lemma booted_notified [simp]: "notify env cb this p = (r, t) \<Longrightarrow> booted t = 0"
  using booted_notify [of env cb this p] by simp

lemma booted_listener [simp]: "booted (onProgress_listener cb this info) = 0"
  by (cases cb) (simp_all add: onProgress_listener_def invocation_def)

lemma failed_not_succeeded: "failed t \<Longrightarrow> \<not> succeeded t"
  by (auto simp: failed_def succeeded_def split: pc.splits sum.splits)

lemma failed_settled: "failed t \<Longrightarrow> \<exists>r. point t = Settled r"
  by (auto simp: failed_def split: pc.splits sum.splits)

text \<open>Resuming a settled call changes nothing.\<close>

lemma resume_settled:
  assumes "point (tasks w ! i) = Settled r"
  shows "resume i w = w"
proof (cases "i < length (tasks w)")
  case False
  then show ?thesis by (simp add: resume_beyond)
next
  case True
  have "(tasks w ! i)\<lparr>point := Settled r\<rparr> = tasks w ! i"
    using assms by (metis task.surjective task.update_convs(2))
  then have same: "(tasks w)[i := (tasks w ! i)\<lparr>point := Settled r\<rparr>] = tasks w"
    by (simp only: list_update_id)
  show ?thesis
    by (simp add: resume_def True assms same)
qed

lemma advance_leader:
  "leader_at p n this \<Longrightarrow> advance env p this = (p', this', t) \<Longrightarrow>
   leader_at p' (n + booted t) this'"
  by (induction env p this rule: advance.induct;
      auto simp: next_file_def Let_def
           split: if_splits option.splits sum.splits list.splits prod.splits)

lemma advance_follower:
  "follower_at p \<Longrightarrow> advance env p this = (p', this', t) \<Longrightarrow>
   follower_at p' \<and> this' = this \<and> t = []"
  by (induction env p this rule: advance.induct; auto split: if_splits)

lemma resume_leader:
  assumes "one_cycle l w"
  shows "one_cycle l (resume l w)"
proof -
  from assms have l: "l < length (tasks w)"
    and before: "\<forall>j < l. failed (tasks w ! j)"
    and lead: "leader_at (point (tasks w ! l)) (boots w) (object w)"
    and foll: "\<forall>j. l < j \<and> j < length (tasks w) \<longrightarrow> follower_at (point (tasks w ! j))"
    by (simp_all add: one_cycle_def)
  obtain p this' t where adv:
    "advance (answers (tasks w ! l)) (point (tasks w ! l)) (object w) = (p, this', t)"
    by (cases "advance (answers (tasks w ! l)) (point (tasks w ! l)) (object w)")
  from advance_leader [OF lead adv]
  have "leader_at (point (tasks (resume l w) ! l)) (boots (resume l w)) (object (resume l w))"
    by (simp add: resume_self [OF l adv] boots_resume [OF l adv])
  moreover have "\<forall>j. l < j \<and> j < length (tasks (resume l w)) \<longrightarrow>
      follower_at (point (tasks (resume l w) ! j))"
    using foll by (simp add: resume_other)
  moreover have "\<forall>j < l. failed (tasks (resume l w) ! j)"
    using before by (simp add: resume_other)
  ultimately show ?thesis using l by (simp add: one_cycle_def)
qed

lemma resume_follower:
  assumes "one_cycle l w" and "l < i"
  shows "one_cycle l (resume i w)"
proof (cases "i < length (tasks w)")
  case False
  then show ?thesis using assms by (simp add: resume_beyond)
next
  case True
  from assms have l: "l < length (tasks w)"
    and before: "\<forall>j < l. failed (tasks w ! j)"
    and lead: "leader_at (point (tasks w ! l)) (boots w) (object w)"
    and foll: "\<forall>j. l < j \<and> j < length (tasks w) \<longrightarrow> follower_at (point (tasks w ! j))"
    by (simp_all add: one_cycle_def)
  obtain p this' t where adv:
    "advance (answers (tasks w ! i)) (point (tasks w ! i)) (object w) = (p, this', t)"
    by (cases "advance (answers (tasks w ! i)) (point (tasks w ! i)) (object w)")
  from foll True assms(2) have "follower_at (point (tasks w ! i))" by simp
  from advance_follower [OF this adv]
  have p: "follower_at p" and same: "this' = object w" "t = []" by simp_all
  have "leader_at (point (tasks (resume i w) ! l)) (boots (resume i w)) (object (resume i w))"
    using lead assms(2)
    by (simp add: resume_self(1) [OF True adv] boots_resume [OF True adv] same resume_other)
  moreover have "\<forall>j. l < j \<and> j < length (tasks (resume i w)) \<longrightarrow>
      follower_at (point (tasks (resume i w) ! j))"
  proof (intro allI impI)
    fix j
    assume j: "l < j \<and> j < length (tasks (resume i w))"
    show "follower_at (point (tasks (resume i w) ! j))"
    proof (cases "j = i")
      case True
      then show ?thesis using p resume_self(3) [OF \<open>i < length (tasks w)\<close> adv] by simp
    next
      case False
      then show ?thesis using foll j by (simp add: resume_other)
    qed
  qed
  moreover have "\<forall>j < l. failed (tasks (resume i w) ! j)"
    using before assms(2) by (simp add: resume_other)
  ultimately show ?thesis using l by (simp add: one_cycle_def)
qed

lemma resume_one_cycle:
  assumes "one_cycle l w"
  shows "one_cycle l (resume i w)"
proof -
  consider "i = l" | "l < i" | "i < l" by linarith
  then show ?thesis
  proof cases
    case 1
    then show ?thesis using assms by (simp add: resume_leader)
  next
    case 2
    then show ?thesis using assms by (simp add: resume_follower)
  next
    case 3
    with assms have "failed (tasks w ! i)" by (simp add: one_cycle_def)
    then obtain r where "point (tasks w ! i) = Settled r"
      using failed_settled by blast
    then have "resume i w = w" by (rule resume_settled)
    then show ?thesis using assms by simp
  qed
qed

lemma run_one_cycle: "one_cycle l w \<Longrightarrow> one_cycle l (run sched w)"
  by (induction sched arbitrary: w) (simp_all add: resume_one_cycle)

lemma resume_no_cycle:
  assumes "no_cycle w"
  shows "resume i w = w"
proof (cases "i < length (tasks w)")
  case False
  then show ?thesis by (simp add: resume_beyond)
next
  case True
  with assms have "failed (tasks w ! i)" by (simp add: no_cycle_def)
  then obtain r where "point (tasks w ! i) = Settled r"
    using failed_settled by blast
  then show ?thesis by (rule resume_settled)
qed

lemma run_no_cycle: "no_cycle w \<Longrightarrow> run sched w = w"
  by (induction sched) (simp_all add: resume_no_cycle)

lemma length_tasks_run [simp]: "length (tasks (run sched w)) = length (tasks w)"
  by (induction sched arbitrary: w) simp_all

lemma leader_at_most_one: "leader_at p n this \<Longrightarrow> n \<le> 1"
  by (induction p n this rule: leader_at.induct) simp_all

text \<open>A call made on an instance with no initialization done or in flight.\<close>

lemma advance_call_fresh:
  assumes "\<not> initialized this" and "\<not> initializing this"
    and "advance env (Init_Call cb) this = (p, this', t)"
  shows "booted t = 0 \<and> \<not> initialized this'
    \<and> ((\<exists>e. p = Settled (Inl e)) \<and> \<not> initializing this'
        \<or> leader_at p 0 this' \<and> initializing this')"
  using assms
  by (auto simp: next_file_def files_def Let_def split: prod.splits option.splits if_splits)

lemma issue_next:
  assumes "issued k w" and "k < length (tasks w)"
  shows "issued (Suc k) (resume k w)"
proof -
  from assms have later: "\<forall>j. k \<le> j \<and> j < length (tasks w) \<longrightarrow> (\<exists>cb. point (tasks w ! j) = Init_Call cb)"
    and idle: "\<not> initialized (object w)"
    by (simp_all add: issued_def)
  from later assms(2) obtain cb where at: "point (tasks w ! k) = Init_Call cb"
    by auto
  obtain p this' t where adv:
    "advance (answers (tasks w ! k)) (point (tasks w ! k)) (object w) = (p, this', t)"
    by (cases "advance (answers (tasks w ! k)) (point (tasks w ! k)) (object w)")
  note self = resume_self [OF assms(2) adv] boots_resume [OF assms(2) adv]
  have later': "\<forall>j. Suc k \<le> j \<and> j < length (tasks (resume k w)) \<longrightarrow>
      (\<exists>cb. point (tasks (resume k w) ! j) = Init_Call cb)"
    using later by (simp add: resume_other)
  show ?thesis
  proof (cases "initializing (object w)")
    case True
    with assms obtain l where l: "l < k" "\<forall>j < l. failed (tasks w ! j)"
      "leader_at (point (tasks w ! l)) (boots w) (object w)"
      "\<forall>j. l < j \<and> j < k \<longrightarrow> point (tasks w ! j) = Init_Wait"
      by (auto simp: issued_def)
    from adv True idle have res: "p = Init_Wait" "this' = object w" "t = []"
      by (simp_all add: at)
    have "\<forall>j < l. failed (tasks (resume k w) ! j)"
      using l(1,2) by (simp add: resume_other)
    moreover have "leader_at (point (tasks (resume k w) ! l)) (boots (resume k w)) (object (resume k w))"
      using l(1,3) by (simp add: self res resume_other)
    moreover have "\<forall>j. l < j \<and> j < Suc k \<longrightarrow> point (tasks (resume k w) ! j) = Init_Wait"
    proof (intro allI impI)
      fix j assume "l < j \<and> j < Suc k"
      then show "point (tasks (resume k w) ! j) = Init_Wait"
        using l(4) self(3) res(1) by (cases "j = k") (simp_all add: resume_other)
    qed
    ultimately have "\<exists>l < Suc k. (\<forall>j < l. failed (tasks (resume k w) ! j))
        \<and> leader_at (point (tasks (resume k w) ! l)) (boots (resume k w)) (object (resume k w))
        \<and> (\<forall>j. l < j \<and> j < Suc k \<longrightarrow> point (tasks (resume k w) ! j) = Init_Wait)"
      using l(1) less_Suc_eq by blast
    then show ?thesis
      using later' True idle assms(2) by (simp add: issued_def self(1) res)
  next
    case False
    with assms have none: "boots w = 0" "\<forall>j < k. failed (tasks w ! j)"
      by (simp_all add: issued_def)
    from advance_call_fresh [OF idle False adv [unfolded at]]
    have quiet: "booted t = 0" and idle': "\<not> initialized this'"
      and kinds: "(\<exists>e. p = Settled (Inl e)) \<and> \<not> initializing this'
        \<or> leader_at p 0 this' \<and> initializing this'"
      by simp_all
    have before: "\<forall>j < k. failed (tasks (resume k w) ! j)"
      using none(2) by (simp add: resume_other)
    from kinds show ?thesis
    proof
      assume thrown: "(\<exists>e. p = Settled (Inl e)) \<and> \<not> initializing this'"
      then have "failed (tasks (resume k w) ! k)"
        by (auto simp: failed_def self(3))
      with before have "\<forall>j < Suc k. failed (tasks (resume k w) ! j)"
        using less_Suc_eq by auto
      then show ?thesis
        using later' thrown idle' none(1) quiet assms(2) by (simp add: issued_def self)
    next
      assume started: "leader_at p 0 this' \<and> initializing this'"
      then have "leader_at (point (tasks (resume k w) ! k)) (boots (resume k w)) (object (resume k w))"
        using none(1) quiet by (simp add: self)
      with before have "\<exists>l < Suc k. (\<forall>j < l. failed (tasks (resume k w) ! j))
        \<and> leader_at (point (tasks (resume k w) ! l)) (boots (resume k w)) (object (resume k w))
        \<and> (\<forall>j. l < j \<and> j < Suc k \<longrightarrow> point (tasks (resume k w) ! j) = Init_Wait)"
        by (intro exI [of _ k]) auto
      then show ?thesis
        using later' started idle' assms(2) by (simp add: issued_def self(1))
    qed
  qed
qed

lemma issued_run:
  "k \<le> length calls \<Longrightarrow>
    issued k (run [0 ..< k]
           \<lparr>object = new_LibreOfficeConverter arg, trace = [],
            tasks = map (\<lambda>(env, onProgress). \<lparr>answers = env, point = Init_Call onProgress\<rparr>) calls\<rparr>)"
proof (induction k)
  case 0
  then show ?case
    by (auto simp: issued_def new_LibreOfficeConverter_def boots_def split: prod.splits)
next
  case (Suc k)
  then have "issued k (run [0 ..< k]
           \<lparr>object = new_LibreOfficeConverter arg, trace = [],
            tasks = map (\<lambda>(env, onProgress). \<lparr>answers = env, point = Init_Call onProgress\<rparr>) calls\<rparr>)"
    by simp
  from issue_next [OF this] Suc.prems show ?case
    by (simp add: run_append)
qed

lemma issued_all:
  assumes "issued (length (tasks w)) w"
  shows "no_cycle w \<or> (\<exists>l. one_cycle l w)"
proof (cases "initializing (object w)")
  case False
  with assms have "no_cycle w" by (simp add: issued_def no_cycle_def)
  then show ?thesis ..
next
  case True
  with assms obtain l where "l < length (tasks w)" "\<forall>j < l. failed (tasks w ! j)"
      "leader_at (point (tasks w ! l)) (boots w) (object w)"
      "\<forall>j. l < j \<and> j < length (tasks w) \<longrightarrow> point (tasks w ! j) = Init_Wait"
    by (auto simp: issued_def)
  then have "one_cycle l w" by (simp add: one_cycle_def)
  then show ?thesis by blast
qed

lemma concurrent_cycles:
  "no_cycle (concurrent_initialize arg calls) \<or> (\<exists>l. one_cycle l (concurrent_initialize arg calls))"
proof -
  have "issued (length calls) (concurrent_initialize arg calls)"
    unfolding concurrent_initialize_def by (rule issued_run) simp
  then show ?thesis
    by (intro issued_all) (simp add: concurrent_initialize_def)
qed

lemma follower_not_failed: "follower_at (point t) \<Longrightarrow> \<not> failed t"
  by (cases "point t" rule: follower_at.cases) (simp_all add: failed_def)

lemma settled_stays:
  assumes "succeeded (tasks w ! j)"
  shows "succeeded (tasks (resume j w) ! j)"
proof -
  from assms obtain v where "point (tasks w ! j) = Settled (Inr v)"
    by (auto simp: succeeded_def split: pc.splits sum.splits)
  then have "resume j w = w" by (rule resume_settled)
  with assms show ?thesis by simp
qed

lemma waiting_settles:
  assumes "point (tasks w ! j) = Init_Wait" and "\<not> initializing (object w)" and "j < length (tasks w)"
  shows "succeeded (tasks (resume j w) ! j)"
proof -
  have "advance (answers (tasks w ! j)) (point (tasks w ! j)) (object w) = (Settled (Inr None), object w, [])"
    using assms by simp
  from resume_self(3) [OF assms(3) this] show ?thesis
    by (simp add: succeeded_def)
qed

lemma advance_steps_left:
  "under_way p \<Longrightarrow> advance env p this = (p', this', t) \<Longrightarrow>
   under_way p' \<and> steps_left env p' \<le> steps_left env p - 1"
  by (induction env p this rule: advance.induct;
      auto simp: next_file_def Let_def
           split: if_splits option.splits sum.splits list.splits prod.splits)

lemma under_way_settled_iff:
  "under_way p \<Longrightarrow> point t = p \<Longrightarrow> settled t = (steps_left env p = 0)"
  by (induction p rule: under_way.induct)
     (auto simp: settled_def succeeded_def failed_def split: sum.splits)

lemma resume_steps_left:
  assumes "0 < length (tasks w)" and "under_way (point (tasks w ! 0))"
  shows "under_way (point (tasks (resume i w) ! 0))
    \<and> answers (tasks (resume i w) ! 0) = answers (tasks w ! 0)
    \<and> steps_left (answers (tasks w ! 0)) (point (tasks (resume i w) ! 0))
         \<le> steps_left (answers (tasks w ! 0)) (point (tasks w ! 0)) - (if i = 0 then 1 else 0)"
proof (cases "i = 0")
  case False
  then show ?thesis using assms by (simp add: resume_other)
next
  case True
  obtain p this' t where adv:
    "advance (answers (tasks w ! 0)) (point (tasks w ! 0)) (object w) = (p, this', t)"
    by (cases "advance (answers (tasks w ! 0)) (point (tasks w ! 0)) (object w)")
  from advance_steps_left [OF assms(2) adv] show ?thesis
    by (simp add: True resume_self [OF assms(1) adv])
qed

lemma run_steps_left:
  "0 < length (tasks w) \<Longrightarrow> under_way (point (tasks w ! 0)) \<Longrightarrow>
   under_way (point (tasks (run sched w) ! 0))
   \<and> steps_left (answers (tasks w ! 0)) (point (tasks (run sched w) ! 0))
        \<le> steps_left (answers (tasks w ! 0)) (point (tasks w ! 0)) - count_list sched 0"
proof (induction sched arbitrary: w)
  case Nil
  then show ?case by simp
next
  case (Cons i sched)
  note step = resume_steps_left [OF Cons.prems, of i]
  from step Cons.prems(1) have "0 < length (tasks (resume i w))"
    and "under_way (point (tasks (resume i w) ! 0))"
    by simp_all
  from Cons.IH [OF this] step show ?case
    by (cases "i = 0"; simp; linarith)
qed

lemma run_followers_only:
  "\<forall>i\<in>set sched. i \<noteq> 0 \<Longrightarrow> tasks (run sched w) ! 0 = tasks w ! 0"
  by (induction sched arbitrary: w) (simp_all add: resume_other)

lemma first_call:
  "under_way (point (tasks (resume 0
      \<lparr>object = new_LibreOfficeConverter arg, trace = [],
       tasks = map (\<lambda>(env, onProgress). \<lparr>answers = env, point = Init_Call onProgress\<rparr>) ((env, cb) # rest)\<rparr>) ! 0))
   \<and> steps_left env (point (tasks (resume 0
      \<lparr>object = new_LibreOfficeConverter arg, trace = [],
       tasks = map (\<lambda>(env, onProgress). \<lparr>answers = env, point = Init_Call onProgress\<rparr>) ((env, cb) # rest)\<rparr>) ! 0))
     \<le> 7 + length (engine_progress env)
   \<and> answers (tasks (resume 0
      \<lparr>object = new_LibreOfficeConverter arg, trace = [],
       tasks = map (\<lambda>(env, onProgress). \<lparr>answers = env, point = Init_Call onProgress\<rparr>) ((env, cb) # rest)\<rparr>) ! 0) = env"
  by (simp add: resume_def new_LibreOfficeConverter_def next_file_def files_def Let_def
           split: prod.splits option.splits)

lemma concurrent_first_call:
  assumes "calls \<noteq> []"
  shows "under_way (point (tasks (concurrent_initialize arg calls) ! 0))
    \<and> answers (tasks (concurrent_initialize arg calls) ! 0) = fst (hd calls)
    \<and> steps_left (fst (hd calls)) (point (tasks (concurrent_initialize arg calls) ! 0))
         \<le> 7 + length (engine_progress (fst (hd calls)))"
proof -
  obtain env cb rest where calls: "calls = (env, cb) # rest"
    using assms by (cases calls) auto
  have upt: "[0 ..< length calls] = 0 # [1 ..< length calls]"
    using assms by (simp add: upt_conv_Cons)
  have "tasks (concurrent_initialize arg calls) ! 0
      = tasks (resume 0
      \<lparr>object = new_LibreOfficeConverter arg, trace = [],
       tasks = map (\<lambda>(env, onProgress). \<lparr>answers = env, point = Init_Call onProgress\<rparr>) calls\<rparr>) ! 0"
    unfolding concurrent_initialize_def upt
    by (simp add: run_followers_only)
  then show ?thesis
    using first_call [of arg env cb rest] by (simp add: calls)
qed

lemma leader_settles:
  assumes "calls \<noteq> []"
    and "7 + length (engine_progress (fst (hd calls))) \<le> count_list sched 0"
  shows "settled (tasks (run sched (concurrent_initialize arg calls)) ! 0)"
proof -
  let ?start = "concurrent_initialize arg calls"
  let ?final = "run sched ?start"
  have some: "0 < length (tasks ?start)"
    using assms(1) by (simp add: concurrent_initialize_def)
  note first = concurrent_first_call [OF assms(1), of arg]
  from first have started: "under_way (point (tasks ?start ! 0))"
    by simp
  from run_steps_left [OF some started, of sched] first assms(2)
  have "under_way (point (tasks ?final ! 0))"
    and "steps_left (fst (hd calls)) (point (tasks ?final ! 0)) = 0"
    by simp_all
  with under_way_settled_iff [OF this(1) refl, of "fst (hd calls)"] show ?thesis by simp
qed

lemma concurrent_initialize_safety:
  assumes "calls \<noteq> []"
  shows "boots (run sched (concurrent_initialize arg calls)) \<le> 1
    \<and> (succeeded (tasks (run sched (concurrent_initialize arg calls)) ! 0) \<longrightarrow>
         boots (run sched (concurrent_initialize arg calls)) = 1
         \<and> (\<forall>j < length calls. \<not> failed (tasks (run sched (concurrent_initialize arg calls)) ! j))
         \<and> (\<forall>j < length calls.
              succeeded (tasks (resume j (run sched (concurrent_initialize arg calls))) ! j)))"
proof -
  let ?start = "concurrent_initialize arg calls"
  let ?final = "run sched ?start"
  have len: "length (tasks ?final) = length calls"
    by (simp add: concurrent_initialize_def)
  from concurrent_cycles [of arg calls] show ?thesis
  proof
    assume none: "no_cycle ?start"
    then have same: "?final = ?start" by (rule run_no_cycle)
    have "0 < length (tasks ?start)"
      using assms by (simp add: concurrent_initialize_def)
    with none have "boots ?start = 0" and "failed (tasks ?start ! 0)"
      by (simp_all add: no_cycle_def)
    then have "boots ?final = 0" and "\<not> succeeded (tasks ?final ! 0)"
      unfolding same by (simp_all add: failed_not_succeeded)
    then show ?thesis
      by simp
  next
    assume "\<exists>l. one_cycle l ?start"
    then obtain l where "one_cycle l ?start" ..
    then have inv: "one_cycle l ?final" by (rule run_one_cycle)
    then have l: "l < length (tasks ?final)"
      and before: "\<forall>j < l. failed (tasks ?final ! j)"
      and lead: "leader_at (point (tasks ?final ! l)) (boots ?final) (object ?final)"
      and foll: "\<forall>j. l < j \<and> j < length (tasks ?final) \<longrightarrow> follower_at (point (tasks ?final ! j))"
      by (simp_all add: one_cycle_def)
    from leader_at_most_one [OF lead] have once: "boots ?final \<le> 1" .
    have "boots ?final = 1
         \<and> (\<forall>j < length calls. \<not> failed (tasks ?final ! j))
         \<and> (\<forall>j < length calls. succeeded (tasks (resume j ?final) ! j))"
      if ok: "succeeded (tasks ?final ! 0)"
    proof -
      from ok before failed_not_succeeded have first: "l = 0"
        by (cases l) auto
      from ok obtain v where at: "point (tasks ?final ! 0) = Settled (Inr v)"
        by (auto simp: succeeded_def split: pc.splits sum.splits)
      with lead first have one: "boots ?final = 1" and idle: "\<not> initializing (object ?final)"
        by simp_all
      have nf: "\<not> failed (tasks ?final ! j)" if "j < length calls" for j
      proof (cases "j = 0")
        case True
        then show ?thesis using at by (simp add: failed_def)
      next
        case False
        then show ?thesis using foll that len first by (simp add: follower_not_failed)
      qed
      have su: "succeeded (tasks (resume j ?final) ! j)" if j: "j < length calls" for j
      proof (cases "succeeded (tasks ?final ! j)")
        case True
        then show ?thesis by (rule settled_stays)
      next
        case False
        with ok have "0 < j" by (cases j) auto
        with foll j len first have "follower_at (point (tasks ?final ! j))" by simp
        with False have "point (tasks ?final ! j) = Init_Wait"
          by (cases "point (tasks ?final ! j)" rule: follower_at.cases) (simp_all add: succeeded_def)
        from waiting_settles [OF this idle] j len show ?thesis by simp
      qed
      from one nf su show ?thesis by blast
    qed
    with once show ?thesis by blast
  qed
qed

lemma resume_single:
  "resume 0 (single env p this t)
     = (case advance env p this of (p', this', t') \<Rightarrow> single env p' this' (t @ t'))"
  by (simp add: resume_def single_def split: prod.splits)

lemma run_replicate_add:
  "run (replicate (n + m) i) w = run (replicate m i) (run (replicate n i) w)"
  by (simp add: replicate_add run_append)

lemma run_replicate_Suc: "run (replicate (Suc n) i) w = run (replicate n i) (resume i w)"
  by simp

lemma settled_absorbs: "run (replicate m 0) (single env (Settled r) this t) = single env (Settled r) this t"
  by (induction m) (simp_all add: resume_single)

lemma check_files_head:
  "check_files env base (f # rest) = (r, tr) \<Longrightarrow> tr = Fetch (asset_url base f) # tl tr"
  by (auto simp: Let_def split: option.splits prod.splits)

lemma fetch_loop_alone:
  "\<exists>n. run (replicate n 0) (single env (Init_Fetch cb f rest) this t)
       = (case check_files env (basePath this) (f # rest) of
            (Some e, tr) \<Rightarrow> single env (Init_Rejected e) this (t @ tl tr)
          | (None, tr) \<Rightarrow> single env (Init_Checked cb) this (t @ tl tr))"
proof (induction rest arbitrary: f t)
  case Nil
  have "run (replicate 1 0) (single env (Init_Fetch cb f []) this t)
       = (case check_files env (basePath this) [f] of
            (Some e, tr) \<Rightarrow> single env (Init_Rejected e) this (t @ tl tr)
          | (None, tr) \<Rightarrow> single env (Init_Checked cb) this (t @ tl tr))"
    by (simp add: resume_single next_file_def Let_def split: option.splits)
  then show ?case by blast
next
  case (Cons g rest)
  show ?case
  proof (cases "check_file f (fetch env (asset_url (basePath this) f))")
    case (Some e)
    then have "run (replicate 1 0) (single env (Init_Fetch cb f (g # rest)) this t)
       = (case check_files env (basePath this) (f # g # rest) of
            (Some e, tr) \<Rightarrow> single env (Init_Rejected e) this (t @ tl tr)
          | (None, tr) \<Rightarrow> single env (Init_Checked cb) this (t @ tl tr))"
      by (simp add: resume_single Let_def)
    then show ?thesis by blast
  next
    case None
    obtain r tr where rest: "check_files env (basePath this) (g # rest) = (r, tr)"
      by (cases "check_files env (basePath this) (g # rest)")
    from check_files_head [OF rest] have tr: "tr = Fetch (asset_url (basePath this) g) # tl tr" .
    from Cons.IH [of g "t @ [Fetch (asset_url (basePath this) g)]"] obtain n where
      n: "run (replicate n 0) (single env (Init_Fetch cb g rest) this (t @ [Fetch (asset_url (basePath this) g)]))
       = (case check_files env (basePath this) (g # rest) of
            (Some e, tr) \<Rightarrow> single env (Init_Rejected e) this ((t @ [Fetch (asset_url (basePath this) g)]) @ tl tr)
          | (None, tr) \<Rightarrow> single env (Init_Checked cb) this ((t @ [Fetch (asset_url (basePath this) g)]) @ tl tr))"
      by blast
    have first: "resume 0 (single env (Init_Fetch cb f (g # rest)) this t)
        = single env (Init_Fetch cb g rest) this (t @ [Fetch (asset_url (basePath this) g)])"
      by (simp add: resume_single None next_file_def)
    have whole: "check_files env (basePath this) (f # g # rest) = (r, Fetch (asset_url (basePath this) f) # tr)"
      using None rest by (simp add: Let_def)
    have "(t @ [Fetch (asset_url (basePath this) g)]) @ tl tr = t @ tr"
      using tr by (metis append.assoc append_Cons append_Nil)
    with n rest whole first
    have "run (replicate (Suc n) 0) (single env (Init_Fetch cb f (g # rest)) this t)
       = (case check_files env (basePath this) (f # g # rest) of
            (Some e, tr) \<Rightarrow> single env (Init_Rejected e) this (t @ tl tr)
          | (None, tr) \<Rightarrow> single env (Init_Checked cb) this (t @ tl tr))"
      by (simp del: check_files.simps replicate.simps add: run_replicate_Suc split: option.splits)
    then show ?thesis by blast
  qed
qed

lemma boot_events_alone:
  "\<exists>n. run (replicate n 0) (single env (Init_Boot cb infos) this t)
       = single env (Init_Boot cb []) this (t @ concat (map (onProgress_listener cb this) infos))"
proof (induction infos arbitrary: t)
  case Nil
  have "run (replicate 0 0) (single env (Init_Boot cb []) this t)
       = single env (Init_Boot cb []) this (t @ concat (map (onProgress_listener cb this) []))"
    by simp
  then show ?case by blast
next
  case (Cons info infos)
  from Cons.IH [of "t @ onProgress_listener cb this info"] obtain n where
    "run (replicate n 0) (single env (Init_Boot cb infos) this (t @ onProgress_listener cb this info))
       = single env (Init_Boot cb []) this
           ((t @ onProgress_listener cb this info) @ concat (map (onProgress_listener cb this) infos))"
    by blast
  then have "run (replicate (Suc n) 0) (single env (Init_Boot cb (info # infos)) this t)
       = single env (Init_Boot cb []) this (t @ concat (map (onProgress_listener cb this) (info # infos)))"
    by (simp add: resume_single)
  then show ?case by blast
qed


lemma reach_settled:
  assumes "run (replicate n 0) w = single env (Settled r) this t"
  shows "\<forall>m\<ge>n. run (replicate m 0) w = single env (Settled r) this t"
proof (intro allI impI)
  fix m :: nat
  assume "n \<le> m"
  then obtain k where m: "m = n + k"
    using le_Suc_ex by blast
  show "run (replicate m 0) w = single env (Settled r) this t"
    unfolding m run_replicate_add assms by (rule settled_absorbs)
qed

text \<open>
  A call of \<open>initialize\<close> that starts a cycle and is resumed again and again with no other
  call in between ends as \<open>initialize_cycle\<close> says: same promise, same state, same effects.
\<close>

theorem initialize_alone:
  assumes fresh: "\<not> initialized this" "\<not> initializing this"
  shows "\<exists>n. \<forall>m\<ge>n. run (replicate m 0) (single env (Init_Call cb) this [])
            = single env (promise_of (initialize_cycle env cb this))
                (state (initialize_cycle env cb this)) (effects (initialize_cycle env cb this))"
proof -
  let ?this1 = "this\<lparr>initializing := True\<rparr>"
  let ?R = "initialize_cycle env cb this"
  let ?goal = "\<lambda>n. run (replicate n 0) (single env (Init_Call cb) this [])
            = single env (promise_of ?R) (state ?R) (effects ?R)"
  obtain c0 t0 where n0: "notify env cb ?this1 progress_checking = (c0, t0)"
    by (cases "notify env cb ?this1 progress_checking")
  have "\<exists>n. ?goal n"
  proof (cases c0)
    case (Some e)
    then have "?goal 1"
      using fresh n0
      by (simp add: resume_single initialize_cycle_def promise_of_def Let_def)
    then show ?thesis by blast
  next
    case None
    note quiet = n0 [unfolded None]
    show ?thesis
    proof (cases "\<not> truthy (crossOriginIsolated env) \<or> \<not> hasSharedArrayBuffer env")
      case True
      then have "?goal 2"
        using fresh quiet
        by (auto simp: numeral_2_eq_2 resume_single initialize_cycle_def checkEnvironment_def
              promise_of_def Let_def)
      then show ?thesis by blast
    next
      case False
      then have chk: "checkEnvironment env ?this1 = check_files env (basePath this) files"
        by (simp add: checkEnvironment_def)
      obtain f rest where fs: "files = f # rest"
        by (simp add: files_def)
      obtain r tr where cf: "check_files env (basePath this) (f # rest) = (r, tr)"
        by (cases "check_files env (basePath this) (f # rest)")
      from check_files_head [OF cf] have tr: "tr = Fetch (asset_url (basePath this) f) # tl tr" .
      have first: "resume 0 (single env (Init_Call cb) this [])
          = single env (Init_Fetch cb f rest) ?this1 (t0 @ [Fetch (asset_url (basePath this) f)])"
        using fresh False quiet by (simp add: resume_single fs next_file_def Let_def)
      from fetch_loop_alone [of env cb f rest ?this1 "t0 @ [Fetch (asset_url (basePath this) f)]"]
      obtain n1 where n1: "run (replicate n1 0)
            (single env (Init_Fetch cb f rest) ?this1 (t0 @ [Fetch (asset_url (basePath this) f)]))
          = (case r of
               Some e \<Rightarrow> single env (Init_Rejected e) ?this1 ((t0 @ [Fetch (asset_url (basePath this) f)]) @ tl tr)
             | None \<Rightarrow> single env (Init_Checked cb) ?this1 ((t0 @ [Fetch (asset_url (basePath this) f)]) @ tl tr))"
        by (auto simp: cf simp del: check_files.simps)
      have t1: "(t0 @ [Fetch (asset_url (basePath this) f)]) @ tl tr = t0 @ tr"
        using tr by (metis append.assoc append_Cons append_Nil)
      show ?thesis
      proof (cases r)
        case (Some e)
        have "?goal (Suc n1 + 1)"
          unfolding run_replicate_add run_replicate_Suc first n1 t1 Some
          by (simp add: resume_single initialize_cycle_def quiet chk fs cf Some promise_of_def
                Let_def del: check_files.simps)
        then show ?thesis by blast
      next
        case checked: None
        obtain c2 t2 where n2: "notify env cb ?this1 progress_loading = (c2, t2)"
          by (cases "notify env cb ?this1 progress_loading")
        show ?thesis
        proof (cases c2)
          case (Some e)
          have "?goal (Suc n1 + 1)"
            unfolding run_replicate_add run_replicate_Suc first n1 t1 checked option.case
            by (simp add: resume_single initialize_cycle_def quiet chk fs cf checked n2 Some
                  promise_of_def Let_def del: check_files.simps)
          then show ?thesis by blast
        next
          case None
          let ?this2 = "?this1\<lparr>converter := Some \<lparr>options = make_options (basePath this), captured = cb\<rparr>\<rparr>"
          let ?t2 = "t0 @ tr @ t2 @ [Construct (make_options (basePath this)), EngineInitialize]"
          have second: "resume 0 (single env (Init_Checked cb) ?this1 (t0 @ tr))
              = single env (Init_Boot cb (engine_progress env)) ?this2 ?t2"
            by (simp add: resume_single n2 None Let_def)
          from boot_events_alone [of env cb "engine_progress env" ?this2 ?t2]
          obtain n3 where n3: "run (replicate n3 0) (single env (Init_Boot cb (engine_progress env)) ?this2 ?t2)
              = single env (Init_Boot cb []) ?this2
                  (?t2 @ concat (map (onProgress_listener cb ?this2) (engine_progress env)))"
            by blast
          have "?goal (Suc n1 + (Suc n3 + 1))"
            unfolding run_replicate_add run_replicate_Suc first n1 t1 checked option.case second n3
            by (simp add: resume_single initialize_cycle_def quiet chk fs cf checked n2 None
                  promise_of_def Let_def
                  del: check_files.simps split: option.splits prod.splits)
          then show ?thesis by blast
        qed
      qed
    qed
  qed
  then obtain n where "?goal n" ..
  from reach_settled [OF this [unfolded promise_of_def]] show ?thesis
    unfolding promise_of_def by blast
qed

lemma notified_effects:
  "notify env cb this p = (r, t) \<Longrightarrow> filter is_Fetch t = [] \<and> filter is_engine_effect t = []"
  using filter_fetch_notify [of env cb this p] filter_engine_notify [of env cb this p] by simp

lemma advance_stalled:
  "unisolated env \<Longrightarrow> stalled_at p \<Longrightarrow> advance env p this = (p', this', t) \<Longrightarrow>
   stalled_at p' \<and> filter is_Fetch t = [] \<and> filter is_engine_effect t = []"
  by (induction env p this rule: advance.induct;
      auto simp: unisolated_def Let_def dest: notified_effects
           split: if_splits prod.splits option.splits)

lemma resume_stalled:
  assumes "stalled w"
  shows "stalled (resume i w)"
proof (cases "i < length (tasks w)")
  case False
  then show ?thesis using assms by (simp add: resume_beyond)
next
  case True
  obtain p this' t where adv:
    "advance (answers (tasks w ! i)) (point (tasks w ! i)) (object w) = (p, this', t)"
    by (cases "advance (answers (tasks w ! i)) (point (tasks w ! i)) (object w)")
  from assms True have "unisolated (answers (tasks w ! i))" "stalled_at (point (tasks w ! i))"
    by (simp_all add: stalled_def)
  from advance_stalled [OF this adv]
  have p: "stalled_at p" and t: "filter is_Fetch t = []" "filter is_engine_effect t = []"
    by simp_all
  have "unisolated (answers (tasks (resume i w) ! j)) \<and> stalled_at (point (tasks (resume i w) ! j))"
    if "j < length (tasks w)" for j
  proof (cases "j = i")
    case True
    with p resume_self(3,4) [OF \<open>i < length (tasks w)\<close> adv] assms that show ?thesis
      by (simp add: stalled_def)
  next
    case False
    with assms that show ?thesis by (simp add: stalled_def resume_other)
  qed
  with t assms show ?thesis
    by (simp add: stalled_def resume_self(2) [OF True adv])
qed

lemma run_stalled: "stalled w \<Longrightarrow> stalled (run sched w)"
  by (induction sched arbitrary: w) (simp_all add: resume_stalled)

text \<open>
  However many \<open>initialize\<close> calls overlap on a page that is not isolated, and in
  whatever order they are resumed, no request is ever issued and the engine is never
  touched.
\<close>

theorem no_fetch_without_isolation:
  assumes "\<forall>call\<in>set calls. unisolated (fst call)"
  shows "filter is_Fetch (trace (run sched
           \<lparr>object = this, trace = [],
            tasks = map (\<lambda>(env, onProgress). \<lparr>answers = env, point = Init_Call onProgress\<rparr>) calls\<rparr>)) = []
    \<and> filter is_engine_effect (trace (run sched
           \<lparr>object = this, trace = [],
            tasks = map (\<lambda>(env, onProgress). \<lparr>answers = env, point = Init_Call onProgress\<rparr>) calls\<rparr>)) = []"
proof -
  have "stalled \<lparr>object = this, trace = [],
            tasks = map (\<lambda>(env, onProgress). \<lparr>answers = env, point = Init_Call onProgress\<rparr>) calls\<rparr>"
    using assms by (auto simp: stalled_def split: prod.splits) (metis fst_conv nth_mem)
  from run_stalled [OF this, of sched] show ?thesis
    by (simp add: stalled_def)
qed

text \<open>The same for \<open>convert\<close> and \<open>destroy\<close>.\<close>

lemma convert_alone:
  "\<forall>m\<ge>3. run (replicate m 0) (single env (Convert_Call file outputFormat) this [])
     = single env
         (Settled (case outcome (convert env file outputFormat this) of
                     Inl e \<Rightarrow> Inl e
                   | Inr blob \<Rightarrow> Inr (Some blob)))
         (state (convert env file outputFormat this))
         (effects (convert env file outputFormat this))"
proof (rule reach_settled)
  show "run (replicate 3 0) (single env (Convert_Call file outputFormat) this [])
     = single env
         (Settled (case outcome (convert env file outputFormat this) of
                     Inl e \<Rightarrow> Inl e
                   | Inr blob \<Rightarrow> Inr (Some blob)))
         (state (convert env file outputFormat this))
         (effects (convert env file outputFormat this))"
    by (simp add: numeral_3_eq_3 resume_single convert_def Let_def split: option.splits sum.splits)
qed

lemma destroy_alone:
  "\<forall>m\<ge>2. run (replicate m 0) (single env Destroy_Call this [])
     = single env
         (Settled (case outcome (destroy env this) of Inl e \<Rightarrow> Inl e | Inr u \<Rightarrow> Inr None))
         (state (destroy env this)) (effects (destroy env this))"
proof (rule reach_settled)
  show "run (replicate 2 0) (single env Destroy_Call this [])
     = single env
         (Settled (case outcome (destroy env this) of Inl e \<Rightarrow> Inl e | Inr u \<Rightarrow> Inr None))
         (state (destroy env this)) (effects (destroy env this))"
    by (simp add: numeral_2_eq_2 resume_single destroy_def split: option.splits)
qed

subsection \<open>Failing steps of \<open>initialize\<close>\<close>

lemma check_file_ok: "check_file file (Response True status) = None"
  by (simp add: check_file_def)

lemma check_file_status:
  "check_file file (Response False status)
     = Some (Error (''Required file '' @ file @ '' returned HTTP '' @ show_nat status))"
  by (simp add: check_file_def catch_clause_def startsWith_def)

lemma check_file_rejection: "check_file file (Rejects e) = Some (catch_clause file e)"
  by (simp add: check_file_def)

lemma check_file_available: "\<not> unavailable res \<Longrightarrow> check_file file res = None"
  by (cases res) (simp_all add: check_file_def)

lemma check_file_unavailable: "unavailable res \<Longrightarrow> check_file file res \<noteq> None"
  by (cases res) (simp_all add: check_file_def)

lemma check_files_throws:
  "\<exists>f\<in>set fs. unavailable (fetch env (asset_url base f)) \<Longrightarrow> fst (check_files env base fs) \<noteq> None"
proof (induction fs)
  case Nil
  then show ?case by simp
next
  case (Cons a fs)
  show ?case
  proof (cases "check_file a (fetch env (asset_url base a))")
    case (Some e)
    then show ?thesis by (simp add: Let_def)
  next
    case None
    with Cons.prems have "\<exists>f\<in>set fs. unavailable (fetch env (asset_url base f))"
      using check_file_unavailable [of "fetch env (asset_url base a)" a] by auto
    from Cons.IH [OF this] None show ?thesis
      by (cases "check_files env base fs") (simp add: Let_def)
  qed
qed

lemma check_files_pass:
  "\<forall>f\<in>set fs. \<not> unavailable (fetch env (asset_url base f)) \<Longrightarrow> fst (check_files env base fs) = None"
  by (induction fs) (auto simp: Let_def check_file_available split: option.splits prod.splits)

lemma checkEnvironment_throws:
  "unisolated env \<or> (\<exists>f\<in>set files. unavailable (fetch env (asset_url (basePath this) f))) \<Longrightarrow>
   fst (checkEnvironment env this) \<noteq> None"
  using check_files_throws [of files env "basePath this"]
  by (auto simp: checkEnvironment_def unisolated_def Let_def)

lemma checkEnvironment_passes:
  "\<not> unisolated env \<Longrightarrow> \<forall>f\<in>set files. \<not> unavailable (fetch env (asset_url (basePath this) f)) \<Longrightarrow>
   fst (checkEnvironment env this) = None"
  using check_files_pass [of files env "basePath this"]
  by (auto simp: checkEnvironment_def unisolated_def Let_def)

lemma checkEnvironment_unisolated:
  "unisolated env \<Longrightarrow>
   checkEnvironment env this = (Some (environment_error (crossOriginIsolated env)), [])"
  by (auto simp: checkEnvironment_def unisolated_def Let_def)

text \<open>What \<open>checkEnvironment\<close> throws when the check of \<open>file\<close> is the first to fail.\<close>

lemma checkEnvironment_first_failure:
  assumes isolated: "\<not> unisolated env"
    and position: "files = before @ file # rest"
    and earlier: "\<forall>f\<in>set before. \<not> unavailable (fetch env (asset_url (basePath this) f))"
    and failing: "unavailable (fetch env (asset_url (basePath this) file))"
  shows "checkEnvironment env this
    = (Some (case fetch env (asset_url (basePath this) file) of
               Response ok status \<Rightarrow>
                 Error (''Required file '' @ file @ '' returned HTTP '' @ show_nat status)
             | Rejects e \<Rightarrow> catch_clause file e),
       map (\<lambda>f. Fetch (asset_url (basePath this) f)) (before @ [file]))"
proof -
  have ok: "\<forall>f\<in>set before. check_file f (fetch env (asset_url (basePath this) f)) = None"
    using earlier by (simp add: check_file_available)
  have bad: "check_file file (fetch env (asset_url (basePath this) file))
      = Some (case fetch env (asset_url (basePath this) file) of
               Response ok status \<Rightarrow>
                 Error (''Required file '' @ file @ '' returned HTTP '' @ show_nat status)
             | Rejects e \<Rightarrow> catch_clause file e)"
    using failing
    by (cases "fetch env (asset_url (basePath this) file)")
       (simp_all add: check_file_status check_file_rejection)
  from check_files_first_failure [OF ok bad, of rest] isolated position show ?thesis
    by (simp add: checkEnvironment_def unisolated_def)
qed

text \<open>
  The \<open>finally\<close> block clears \<open>initializing\<close> on every path; \<open>initialized\<close> is set, and
  the promise resolved, only after \<open>checkEnvironment\<close> has returned and the engine has
  booted.
\<close>

lemma cycle_clears_initializing: "\<not> initializing (state (initialize_cycle env cb this))"
  by (simp add: initialize_cycle_def Let_def split: prod.splits option.splits)

lemma cycle_initialized:
  "\<not> initialized this \<Longrightarrow> initialized (state (initialize_cycle env cb this)) \<Longrightarrow>
   fst (checkEnvironment env (this\<lparr>initializing := True\<rparr>)) = None \<and> engine_initialize env = None"
  by (auto simp: initialize_cycle_def Let_def split: prod.splits option.splits)

lemma cycle_resolved:
  "outcome (initialize_cycle env cb this) = Inr u \<Longrightarrow>
   fst (checkEnvironment env (this\<lparr>initializing := True\<rparr>)) = None \<and> engine_initialize env = None"
  by (auto simp: initialize_cycle_def Let_def split: prod.splits option.splits)

lemma cycle_check_thrown:
  "returns env cb progress_checking \<Longrightarrow>
   checkEnvironment env (this\<lparr>initializing := True\<rparr>) = (Some e, t) \<Longrightarrow>
   initialize_cycle env cb this
     = \<lparr>outcome = Inl e, state = this\<lparr>initializing := False\<rparr>,
        effects = snd (notify env cb (this\<lparr>initializing := True\<rparr>) progress_checking) @ t\<rparr>"
  using notify_returns [of env cb "this\<lparr>initializing := True\<rparr>" progress_checking]
  by (auto simp: initialize_cycle_def Let_def split: prod.splits option.splits)

lemma cycle_boot_thrown:
  "returns env cb progress_checking \<Longrightarrow> returns env cb progress_loading \<Longrightarrow>
   fst (checkEnvironment env (this\<lparr>initializing := True\<rparr>)) = None \<Longrightarrow>
   engine_initialize env = Some e \<Longrightarrow>
   outcome (initialize_cycle env cb this) = Inl e"
  using notify_returns [of env cb "this\<lparr>initializing := True\<rparr>" progress_checking]
    notify_returns [of env cb "this\<lparr>initializing := True\<rparr>" progress_loading]
  by (auto simp: initialize_cycle_def Let_def split: prod.splits option.splits)

text \<open>Before \<open>checkEnvironment\<close> has returned the engine is not touched.\<close>

lemma cycle_engine_untouched:
  "fst (checkEnvironment env (this\<lparr>initializing := True\<rparr>)) \<noteq> None \<Longrightarrow>
   filter is_engine_effect (effects (initialize_cycle env cb this)) = []
   \<and> converter (state (initialize_cycle env cb this)) = converter this"
  using checkEnvironment_effects [of env "this\<lparr>initializing := True\<rparr>"]
  by (auto simp: initialize_cycle_def Let_def dest: notified_effects
           split: prod.splits option.splits)

text \<open>
  The promise is resolved only when every step has succeeded and the callback has
  returned normally from each of the wrapper's three events.
\<close>

lemma cycle_success:
  "outcome (initialize_cycle env cb this) = Inr u \<Longrightarrow>
   returns env cb progress_checking
   \<and> fst (checkEnvironment env (this\<lparr>initializing := True\<rparr>)) = None
   \<and> returns env cb progress_loading
   \<and> engine_initialize env = None
   \<and> returns env cb progress_ready"
  by (cases cb)
     (auto simp: initialize_cycle_def notify_def returns_def Let_def
           split: prod.splits option.splits)

text \<open>
  Only a call that runs the steps can be rejected: on an instance that is initialized
  the call returns at once, and a call that finds an initialization in flight returns
  once it has waited.
\<close>

lemma rejected_call_ran_cycle:
  "initialize env cb this = Some r \<Longrightarrow> outcome r = Inl e \<Longrightarrow>
   \<not> initialized this \<and> \<not> initializing this \<and> r = initialize_cycle env cb this"
  by (auto simp: initialize_def split: if_splits option.splits)

subsection \<open>Callbacks that throw\<close>

text \<open>
  The three invocations of the callback sit inside the \<open>try\<close> block, so what the
  callback throws rejects the call. On the first event nothing has been checked yet: no
  request is issued. On the last event the engine has booted and \<open>initialized\<close> is
  already set: the call is rejected and the instance is Ready. Neither is a failure of
  the environment check, of an asset check or of the engine boot.
\<close>

lemma callback_throws_on_first_event:
  "outcome (initialize_cycle throwing_callbacks (Some 1) (new_LibreOfficeConverter None))
     = Inl (Error ''no progress bar'')
   \<and> effects (initialize_cycle throwing_callbacks (Some 1) (new_LibreOfficeConverter None))
       = [Progress 1 progress_checking False True]
   \<and> state (initialize_cycle throwing_callbacks (Some 1) (new_LibreOfficeConverter None))
       = new_LibreOfficeConverter None"
  by (simp add: example_defs cycle_defs)

lemma callback_throws_on_last_event:
  "outcome (initialize_cycle throwing_callbacks (Some 2) (new_LibreOfficeConverter None))
     = Inl (Error ''render failed'')
   \<and> isReady (state (initialize_cycle throwing_callbacks (Some 2) (new_LibreOfficeConverter None)))
   \<and> \<not> initializing (state (initialize_cycle throwing_callbacks (Some 2) (new_LibreOfficeConverter None)))
   \<and> map_option captured
        (converter (state (initialize_cycle throwing_callbacks (Some 2) (new_LibreOfficeConverter None))))
       = Some (Some 2)"
  by (simp add: example_defs cycle_defs progress_checking_def progress_loading_def
        progress_ready_def)

lemma callback_throws_in_steps:
  "point (tasks (run [0]
      \<lparr>object = new_LibreOfficeConverter None, trace = [],
       tasks = [\<lparr>answers = throwing_callbacks, point = Init_Call (Some 1)\<rparr>]\<rparr>) ! 0)
     = Settled (Inl (Error ''no progress bar''))
   \<and> point (tasks (run [0, 0, 0, 0, 0, 0, 0, 0]
      \<lparr>object = new_LibreOfficeConverter None, trace = [],
       tasks = [\<lparr>answers = throwing_callbacks, point = Init_Call (Some 2)\<rparr>]\<rparr>) ! 0)
     = Settled (Inl (Error ''render failed''))"
  by (simp add: resume_def example_defs cycle_defs next_file_def progress_checking_def
        progress_loading_def progress_ready_def)

subsection \<open>Claims\<close>

text \<open>
  C1. \<open>convert\<close> on an instance that is not Ready should fail with the "not initialized"
  error and never invoke the engine. The guard of \<open>convert\<close> tests the handle, not the
  \<open>initialized\<close> flag, and a failed boot leaves the handle in place: after an
  \<open>initialize()\<close> whose engine boot rejects, the instance is not Ready, yet \<open>convert\<close>
  calls the engine and returns its result.
\<close>

theorem convert_after_failed_boot_reaches_engine:
  "initialize boot_fails None (new_LibreOfficeConverter None)
     = Some (initialize_cycle boot_fails None (new_LibreOfficeConverter None))
   \<and> outcome (initialize_cycle boot_fails None (new_LibreOfficeConverter None))
       = Inl (Error ''worker crashed'')
   \<and> \<not> isReady (state (initialize_cycle boot_fails None (new_LibreOfficeConverter None)))
   \<and> \<not> initialized (state (initialize_cycle boot_fails None (new_LibreOfficeConverter None)))
   \<and> effects (convert healthy readme ''pdf''
                (state (initialize_cycle boot_fails None (new_LibreOfficeConverter None))))
       = [EngineConvert [1, 2, 3] ''pdf'' ''readme'' ''README'']
   \<and> outcome (convert healthy readme ''pdf''
                (state (initialize_cycle boot_fails None (new_LibreOfficeConverter None))))
       = Inr \<lparr>blob_parts = [1, 2, 3], blob_type = ''application/pdf''\<rparr>"
  by (simp add: example_defs initialize_def cycle_defs convert_def extension_def pop_def
        toLowerCase_def is_ASCII_def lower_char_def)

text \<open>
  C2. A call of \<open>initialize\<close> on an instance with no initialization done or in flight
  runs the steps (no other call can be rejected, lemma \<open>rejected_call_ran_cycle\<close>).
  When the page is not isolated, or the existence check of some asset fails, or the
  engine boot rejects, the call is rejected, whatever the progress callback does;
  afterwards both flags are false, the instance is not Ready, and a later \<open>initialize\<close>
  runs a full cycle again. When the callback has returned normally from the events
  before the failing step, the error is that of the step: the environment error, the
  error of the first asset whose check fails, or the error of the engine boot.
\<close>

theorem initialize_failure_leaves_uninitialized:
  assumes fresh: "\<not> initialized this" "\<not> initializing this"
    and failure: "unisolated env
      \<or> (\<exists>file\<in>set files. unavailable (fetch env (asset_url (basePath this) file)))
      \<or> engine_initialize env \<noteq> None"
  shows "initialize env cb this = Some (initialize_cycle env cb this)
    \<and> isl (outcome (initialize_cycle env cb this))
    \<and> \<not> initialized (state (initialize_cycle env cb this))
    \<and> \<not> initializing (state (initialize_cycle env cb this))
    \<and> \<not> isReady (state (initialize_cycle env cb this))
    \<and> initialize env' cb' (state (initialize_cycle env cb this))
        = Some (initialize_cycle env' cb' (state (initialize_cycle env cb this)))
    \<and> (returns env cb progress_checking \<and> unisolated env \<longrightarrow>
         outcome (initialize_cycle env cb this) = Inl (environment_error (crossOriginIsolated env)))
    \<and> (\<forall>before file rest.
         returns env cb progress_checking \<and> \<not> unisolated env
         \<and> files = before @ file # rest
         \<and> (\<forall>f\<in>set before. \<not> unavailable (fetch env (asset_url (basePath this) f)))
         \<and> unavailable (fetch env (asset_url (basePath this) file)) \<longrightarrow>
         outcome (initialize_cycle env cb this)
           = Inl (case fetch env (asset_url (basePath this) file) of
                    Response ok status \<Rightarrow>
                      Error (''Required file '' @ file @ '' returned HTTP '' @ show_nat status)
                  | Rejects e \<Rightarrow> catch_clause file e))
    \<and> (\<forall>e. returns env cb progress_checking \<and> returns env cb progress_loading
         \<and> \<not> unisolated env
         \<and> (\<forall>f\<in>set files. \<not> unavailable (fetch env (asset_url (basePath this) f)))
         \<and> engine_initialize env = Some e \<longrightarrow>
         outcome (initialize_cycle env cb this) = Inl e)"
proof -
  let ?this1 = "this\<lparr>initializing := True\<rparr>"
  let ?R = "initialize_cycle env cb this"
  have run: "initialize env cb this = Some ?R"
    using fresh by (rule initialize_fresh)
  have thrown: "fst (checkEnvironment env ?this1) \<noteq> None \<or> engine_initialize env \<noteq> None"
    using failure checkEnvironment_throws [of env ?this1] by auto
  have rejected: "isl (outcome ?R)"
  proof (cases "outcome ?R")
    case (Inl e)
    then show ?thesis by simp
  next
    case (Inr u)
    from cycle_resolved [OF this] thrown show ?thesis by simp
  qed
  have unset: "\<not> initialized (state ?R)"
    using cycle_initialized [OF fresh(1), of env cb] thrown by auto
  have cleared: "\<not> initializing (state ?R)"
    by (rule cycle_clears_initializing)
  have unready: "\<not> isReady (state ?R)"
    using unset by (simp add: isReady_def)
  have retry: "initialize env' cb' (state ?R) = Some (initialize_cycle env' cb' (state ?R))"
    using unset cleared by (rule initialize_fresh)
  have environment: "returns env cb progress_checking \<and> unisolated env \<longrightarrow>
      outcome ?R = Inl (environment_error (crossOriginIsolated env))"
  proof
    assume a: "returns env cb progress_checking \<and> unisolated env"
    then have "checkEnvironment env ?this1 = (Some (environment_error (crossOriginIsolated env)), [])"
      by (simp add: checkEnvironment_unisolated)
    from cycle_check_thrown [OF _ this] a show "outcome ?R = Inl (environment_error (crossOriginIsolated env))"
      by simp
  qed
  have asset: "\<forall>before file rest.
         returns env cb progress_checking \<and> \<not> unisolated env
         \<and> files = before @ file # rest
         \<and> (\<forall>f\<in>set before. \<not> unavailable (fetch env (asset_url (basePath this) f)))
         \<and> unavailable (fetch env (asset_url (basePath this) file)) \<longrightarrow>
         outcome ?R
           = Inl (case fetch env (asset_url (basePath this) file) of
                    Response ok status \<Rightarrow>
                      Error (''Required file '' @ file @ '' returned HTTP '' @ show_nat status)
                  | Rejects e \<Rightarrow> catch_clause file e)"
  proof (intro allI impI)
    fix before asset rest
    assume a: "returns env cb progress_checking \<and> \<not> unisolated env
         \<and> files = before @ asset # rest
         \<and> (\<forall>f\<in>set before. \<not> unavailable (fetch env (asset_url (basePath this) f)))
         \<and> unavailable (fetch env (asset_url (basePath this) asset))"
    then have "checkEnvironment env ?this1
        = (Some (case fetch env (asset_url (basePath ?this1) asset) of
               Response ok status \<Rightarrow>
                 Error (''Required file '' @ asset @ '' returned HTTP '' @ show_nat status)
             | Rejects e \<Rightarrow> catch_clause asset e),
           map (\<lambda>f. Fetch (asset_url (basePath ?this1) f)) (before @ [asset]))"
      using checkEnvironment_first_failure [of env before asset rest ?this1] by simp
    from cycle_check_thrown [OF _ this] a
    show "outcome ?R
           = Inl (case fetch env (asset_url (basePath this) asset) of
                    Response ok status \<Rightarrow>
                      Error (''Required file '' @ asset @ '' returned HTTP '' @ show_nat status)
                  | Rejects e \<Rightarrow> catch_clause asset e)"
      by simp
  qed
  have boot: "\<forall>e. returns env cb progress_checking \<and> returns env cb progress_loading
         \<and> \<not> unisolated env
         \<and> (\<forall>f\<in>set files. \<not> unavailable (fetch env (asset_url (basePath this) f)))
         \<and> engine_initialize env = Some e \<longrightarrow>
         outcome ?R = Inl e"
  proof (intro allI impI)
    fix e
    assume a: "returns env cb progress_checking \<and> returns env cb progress_loading
         \<and> \<not> unisolated env
         \<and> (\<forall>f\<in>set files. \<not> unavailable (fetch env (asset_url (basePath this) f)))
         \<and> engine_initialize env = Some e"
    then have "fst (checkEnvironment env ?this1) = None"
      by (intro checkEnvironment_passes) simp_all
    from cycle_boot_thrown [OF _ _ this] a show "outcome ?R = Inl e"
      by simp
  qed
  from run rejected unset cleared unready retry environment asset boot show ?thesis
    by (intro conjI)
qed

theorem initialize_failure_leaves_uninitialized_witness:
  "outcome (initialize_cycle no_SharedArrayBuffer (Some 1) (new_LibreOfficeConverter None))
     = Inl (environment_error (Some True))
   \<and> outcome (initialize_cycle data_bundle_missing (Some 1) (new_LibreOfficeConverter None))
       = Inl (Error ''Required file soffice.data returned HTTP 404'')
   \<and> initialize boot_fails (Some 1) (new_LibreOfficeConverter None)
       = Some (initialize_cycle boot_fails (Some 1) (new_LibreOfficeConverter None))
   \<and> outcome (initialize_cycle boot_fails (Some 1) (new_LibreOfficeConverter None))
       = Inl (Error ''worker crashed'')
   \<and> \<not> initialized (state (initialize_cycle boot_fails (Some 1) (new_LibreOfficeConverter None)))
   \<and> \<not> initializing (state (initialize_cycle boot_fails (Some 1) (new_LibreOfficeConverter None)))
   \<and> \<not> isReady (state (initialize_cycle boot_fails (Some 1) (new_LibreOfficeConverter None)))

   \<and> initialize healthy None
        (state (initialize_cycle boot_fails (Some 1) (new_LibreOfficeConverter None)))
       = Some (initialize_cycle healthy None
                 (state (initialize_cycle boot_fails (Some 1) (new_LibreOfficeConverter None))))
   \<and> outcome (initialize_cycle healthy None
                (state (initialize_cycle boot_fails (Some 1) (new_LibreOfficeConverter None))))
       = Inr ()"
proof -
  let ?new = "new_LibreOfficeConverter None"
  have fresh: "\<not> initialized ?new" "\<not> initializing ?new"
    by (simp_all add: new_LibreOfficeConverter_def)
  have quiet: "returns no_SharedArrayBuffer (Some 1) progress_checking"
    "returns data_bundle_missing (Some 1) progress_checking"
    "returns boot_fails (Some 1) progress_checking"
    "returns boot_fails (Some 1) progress_loading"
    by (simp_all add: returns_def example_defs)
  have page: "unisolated no_SharedArrayBuffer" "\<not> unisolated data_bundle_missing"
    "\<not> unisolated boot_fails"
    by (simp_all add: unisolated_def truthy_def example_defs)
  have position: "files = [''soffice.wasm''] @ ''soffice.data''
                    # [''soffice.js'', ''soffice.worker.js'', ''browser.worker.global.js'']"
    by (simp add: files_def)
  have earlier: "\<forall>f\<in>set [''soffice.wasm''].
      \<not> unavailable (fetch data_bundle_missing (asset_url (basePath ?new) f))"
    by (simp add: example_defs asset_url_def new_LibreOfficeConverter_def)
  have response: "fetch data_bundle_missing (asset_url (basePath ?new) ''soffice.data'') = Response False 404"
    by (simp add: example_defs new_LibreOfficeConverter_def)
  have failing: "unavailable (fetch data_bundle_missing (asset_url (basePath ?new) ''soffice.data''))"
    by (simp add: response)
  have served: "\<forall>f\<in>set files. \<not> unavailable (fetch boot_fails (asset_url (basePath ?new) f))"
    by (simp add: example_defs)
  have crash: "engine_initialize boot_fails = Some (Error ''worker crashed'')"
    by (simp add: example_defs)
  have digits: "show_nat 404 = ''404''"
    by (simp add: show_nat.simps digit_char_def)
  note unisolated_page = initialize_failure_leaves_uninitialized
    [OF fresh disjI1, OF page(1), of "Some 1" healthy None]
  have in_files: "''soffice.data'' \<in> set files"
    by (simp add: files_def)
  note missing = initialize_failure_leaves_uninitialized
    [OF fresh disjI2, OF disjI1, OF bexI, OF failing in_files, of "Some 1" healthy None]
  note crashed = initialize_failure_leaves_uninitialized
    [OF fresh disjI2, OF disjI2, of boot_fails "Some 1" healthy None]

  have a: "outcome (initialize_cycle no_SharedArrayBuffer (Some 1) ?new)
      = Inl (environment_error (Some True))"
    using unisolated_page [THEN conjunct2, THEN conjunct2, THEN conjunct2, THEN conjunct2,
        THEN conjunct2, THEN conjunct2, THEN conjunct1] quiet(1) page(1)
    by (simp add: example_defs)
  have b: "outcome (initialize_cycle data_bundle_missing (Some 1) ?new)
      = Inl (Error ''Required file soffice.data returned HTTP 404'')"
  proof -
    from missing [THEN conjunct2, THEN conjunct2, THEN conjunct2, THEN conjunct2,
        THEN conjunct2, THEN conjunct2, THEN conjunct2, THEN conjunct1]
    have "returns data_bundle_missing (Some 1) progress_checking \<and> \<not> unisolated data_bundle_missing
         \<and> files = [''soffice.wasm''] @ ''soffice.data''
                    # [''soffice.js'', ''soffice.worker.js'', ''browser.worker.global.js'']
         \<and> (\<forall>f\<in>set [''soffice.wasm''].
               \<not> unavailable (fetch data_bundle_missing (asset_url (basePath ?new) f)))
         \<and> unavailable (fetch data_bundle_missing (asset_url (basePath ?new) ''soffice.data'')) \<longrightarrow>
         outcome (initialize_cycle data_bundle_missing (Some 1) ?new)
           = Inl (case fetch data_bundle_missing (asset_url (basePath ?new) ''soffice.data'') of
                    Response ok status \<Rightarrow>
                      Error (''Required file '' @ ''soffice.data'' @ '' returned HTTP '' @ show_nat status)
                  | Rejects e \<Rightarrow> catch_clause ''soffice.data'' e)"
      by (elim allE)
    then have "outcome (initialize_cycle data_bundle_missing (Some 1) ?new)
           = Inl (case fetch data_bundle_missing (asset_url (basePath ?new) ''soffice.data'') of
                    Response ok status \<Rightarrow>
                      Error (''Required file '' @ ''soffice.data'' @ '' returned HTTP '' @ show_nat status)
                  | Rejects e \<Rightarrow> catch_clause ''soffice.data'' e)"
      using quiet(2) page(2) position earlier failing by (elim impE) (intro conjI)
    then show ?thesis
      by (simp add: response digits)
  qed
  have "engine_initialize boot_fails \<noteq> None"
    by (simp add: crash)
  note crashed' = crashed [OF this]
  from crashed' [THEN conjunct2, THEN conjunct2, THEN conjunct2, THEN conjunct2,
      THEN conjunct2, THEN conjunct2, THEN conjunct2, THEN conjunct2]
  have "returns boot_fails (Some 1) progress_checking \<and> returns boot_fails (Some 1) progress_loading
         \<and> \<not> unisolated boot_fails
         \<and> (\<forall>f\<in>set files. \<not> unavailable (fetch boot_fails (asset_url (basePath ?new) f)))
         \<and> engine_initialize boot_fails = Some (Error ''worker crashed'') \<longrightarrow>
         outcome (initialize_cycle boot_fails (Some 1) ?new) = Inl (Error ''worker crashed'')"
    by (rule spec)
  then have c: "outcome (initialize_cycle boot_fails (Some 1) ?new) = Inl (Error ''worker crashed'')"
    using quiet(3,4) page(3) served crash by (elim impE) (intro conjI)
  have retried: "outcome (initialize_cycle healthy None
      (state (initialize_cycle boot_fails (Some 1) ?new))) = Inr ()"
    by (simp add: example_defs cycle_defs)

  from a b crashed' [THEN conjunct1] c
    crashed' [THEN conjunct2, THEN conjunct2, THEN conjunct1]
    crashed' [THEN conjunct2, THEN conjunct2, THEN conjunct2, THEN conjunct1]
    crashed' [THEN conjunct2, THEN conjunct2, THEN conjunct2, THEN conjunct2, THEN conjunct1]
    crashed' [THEN conjunct2, THEN conjunct2, THEN conjunct2, THEN conjunct2, THEN conjunct2,
      THEN conjunct1]
    retried
  show ?thesis
    by (intro conjI)
qed

text \<open>
  C3 as stated fails: when the engine's shutdown rejects, \<open>destroy\<close> rejects with the
  same error, and the handle and the \<open>initialized\<close> flag stay as they were.
\<close>

theorem destroy_rejects_when_shutdown_fails:
  "isReady (state (initialize_cycle healthy None (new_LibreOfficeConverter None)))
   \<and> outcome (destroy shutdown_fails (state (initialize_cycle healthy None (new_LibreOfficeConverter None))))
       = Inl (Error ''worker gone'')
   \<and> converter (state (destroy shutdown_fails
                          (state (initialize_cycle healthy None (new_LibreOfficeConverter None)))))
       \<noteq> None
   \<and> initialized (state (destroy shutdown_fails
                            (state (initialize_cycle healthy None (new_LibreOfficeConverter None)))))"
  by (simp add: example_defs cycle_defs destroy_def)

text \<open>
  C3, amended. Whenever there is no engine handle, or the engine's shutdown completes
  without error, \<open>destroy\<close> returns normally and afterwards the handle is null and
  \<open>initialized\<close> is false.
\<close>

theorem destroy_clears_handle_and_flag:
  "converter this = None \<or> engine_destroy env = None \<Longrightarrow>
   outcome (destroy env this) = Inr ()
   \<and> converter (state (destroy env this)) = None
   \<and> \<not> initialized (state (destroy env this))"
  by (auto simp: destroy_def split: option.splits)

theorem destroy_clears_handle_and_flag_witness:
  "engine_destroy healthy = None
   \<and> isReady (state (initialize_cycle healthy None (new_LibreOfficeConverter None)))
   \<and> outcome (destroy healthy (state (initialize_cycle healthy None (new_LibreOfficeConverter None))))
       = Inr ()
   \<and> converter (state (destroy healthy
                          (state (initialize_cycle healthy None (new_LibreOfficeConverter None)))))
       = None
   \<and> \<not> initialized (state (destroy healthy
                              (state (initialize_cycle healthy None (new_LibreOfficeConverter None)))))"
proof -
  have quiet: "engine_destroy healthy = None"
    by (simp add: healthy_def)
  have ready: "isReady (state (initialize_cycle healthy None (new_LibreOfficeConverter None)))"
    by (simp add: example_defs cycle_defs)
  from destroy_clears_handle_and_flag [of _ healthy, OF disjI2, OF quiet] quiet ready
  show ?thesis by simp
qed

text \<open>
  C4 as stated fails at one point: the final \<open>ready\<close> event is handed to the callback
  after \<open>this.initialized = true\<close> and before the \<open>finally\<close> block clears
  \<open>initializing\<close>, so that callback runs with both flags true.
\<close>

theorem flags_both_true_in_ready_callback:
  "trace (run [0, 0, 0, 0, 0, 0, 0, 0]
      \<lparr>object = new_LibreOfficeConverter None, trace = [],
       tasks = [\<lparr>answers = healthy, point = Init_Call (Some 1)\<rparr>]\<rparr>)
    = effects (initialize_cycle healthy (Some 1) (new_LibreOfficeConverter None))
   \<and> last (effects (initialize_cycle healthy (Some 1) (new_LibreOfficeConverter None)))
      = Progress 1 progress_ready True True"
  by (simp add: resume_def example_defs cycle_defs next_file_def)

text \<open>
  C4, amended. In every interleaving of \<open>initialize\<close>, \<open>convert\<close> and \<open>destroy\<close>
  calls, at every point where control is back with the event loop the two flags are not
  both true, and every callback invocation other than the final \<open>ready\<close> one saw them
  not both true; a step of a call other than \<open>destroy\<close> never clears \<open>initialized\<close>.
\<close>

theorem flags_exclusive_between_steps:
  assumes "flags_exclusive (object w)" and "\<forall>e\<in>set (trace w). exclusive_when_observed e"
  shows "flags_exclusive (object (run sched w))
    \<and> (\<forall>e\<in>set (trace (run sched w)). exclusive_when_observed e)
    \<and> (\<forall>i. initialized (object (run sched w)) \<and>
             (i < length (tasks (run sched w)) \<longrightarrow> \<not> destroying (point (tasks (run sched w) ! i)))
             \<longrightarrow> initialized (object (resume i (run sched w))))"
  using run_exclusive [OF assms, of sched] resume_keeps_initialized [of "run sched w"]
  by blast

theorem flags_exclusive_between_steps_witness:
  "flags_exclusive (object (run [0, 0, 0, 0, 0, 0, 0, 0, 1, 1]
      \<lparr>object = new_LibreOfficeConverter None, trace = [],
       tasks = [\<lparr>answers = healthy, point = Init_Call (Some 1)\<rparr>,
                \<lparr>answers = healthy, point = Convert_Call readme ''pdf''\<rparr>]\<rparr>))
   \<and> initialized (object (run [0, 0, 0, 0, 0, 0, 0, 0, 1, 1]
      \<lparr>object = new_LibreOfficeConverter None, trace = [],
       tasks = [\<lparr>answers = healthy, point = Init_Call (Some 1)\<rparr>,
                \<lparr>answers = healthy, point = Convert_Call readme ''pdf''\<rparr>]\<rparr>))
   \<and> initialized (object (resume 1 (run [0, 0, 0, 0, 0, 0, 0, 0, 1, 1]
      \<lparr>object = new_LibreOfficeConverter None, trace = [],
       tasks = [\<lparr>answers = healthy, point = Init_Call (Some 1)\<rparr>,
                \<lparr>answers = healthy, point = Convert_Call readme ''pdf''\<rparr>]\<rparr>)))"
proof -
  let ?start = "\<lparr>object = new_LibreOfficeConverter None, trace = [],
       tasks = [\<lparr>answers = healthy, point = Init_Call (Some 1)\<rparr>,
                \<lparr>answers = healthy, point = Convert_Call readme ''pdf''\<rparr>]\<rparr>"
  let ?final = "run [0, 0, 0, 0, 0, 0, 0, 0, 1, 1] ?start"
  have a: "flags_exclusive (object ?start)"
    by (simp add: flags_exclusive_def new_LibreOfficeConverter_def)
  have b: "\<forall>e\<in>set (trace ?start). exclusive_when_observed e"
    by simp
  have ready: "initialized (object ?final)"
    by (simp add: resume_def example_defs cycle_defs next_file_def)
  have at: "\<not> destroying (point (tasks ?final ! 1))"
    by (simp add: resume_def example_defs cycle_defs next_file_def)
  note all = flags_exclusive_between_steps [OF a b, of "[0, 0, 0, 0, 0, 0, 0, 0, 1, 1]"]
  from all have exclusive: "flags_exclusive (object ?final)"
    by (rule conjunct1)
  from all [THEN conjunct2, THEN conjunct2]
  have "initialized (object ?final) \<and>
           (1 < length (tasks ?final) \<longrightarrow> \<not> destroying (point (tasks ?final ! 1)))
         \<longrightarrow> initialized (object (resume 1 ?final))"
    by (rule spec)
  with ready at have kept: "initialized (object (resume 1 ?final))"
    by (elim impE) (intro conjI impI)
  from exclusive ready kept show ?thesis
    by (intro conjI)
qed

text \<open>
  C5. The input format sent to the engine should be the empty string when the file name
  has no extension. For the name \<open>README\<close> the code sends \<open>readme\<close>: \<open>split('.')\<close> of a
  name without a dot is the one-element array holding the whole name, so \<open>pop()\<close>
  returns the name and the fallback to the empty string never applies.
\<close>

theorem convert_sends_whole_name_as_format:
  "effects (convert env \<lparr>name = ''README'', arrayBuffer = Inr bytes\<rparr> outputFormat
              (this\<lparr>converter := Some engine\<rparr>))
     = [EngineConvert bytes outputFormat ''readme'' ''README'']"
  by (simp add: convert_def extension_def pop_def toLowerCase_def is_ASCII_def lower_char_def
           Let_def split: sum.split)

text \<open>
  C6 as stated fails: when the cycle fails, only the call that runs it rejects; a call
  that waited leaves its loop once \<open>initializing\<close> is false and resolves. With no
  \<open>SharedArrayBuffer\<close> and two concurrent calls, the boot is never started, the first
  call fails and the second succeeds.
\<close>

theorem waiting_caller_succeeds_when_cycle_fails:
  "boots (run [0, 1] (concurrent_initialize None [(no_SharedArrayBuffer, None), (no_SharedArrayBuffer, None)])) = 0
   \<and> failed (tasks (run [0, 1] (concurrent_initialize None [(no_SharedArrayBuffer, None), (no_SharedArrayBuffer, None)])) ! 0)
   \<and> succeeded (tasks (run [0, 1] (concurrent_initialize None [(no_SharedArrayBuffer, None), (no_SharedArrayBuffer, None)])) ! 1)"
  by (simp add: concurrent_initialize_def resume_def example_defs cycle_defs next_file_def
        boots_def failed_def succeeded_def)

text \<open>
  C6, amended. For \<open>N \<ge> 1\<close> calls of \<open>initialize\<close> made on a new instance before any
  of them is resumed, and every order in which they are then resumed: the engine boot is
  started at most once; the first call has settled once it has been resumed 7 times plus
  once per engine progress event; and if the first call has succeeded, the boot was
  started exactly once, no call has failed, and every call succeeds at its next
  resumption at the latest.
\<close>

theorem concurrent_initialize_boots_at_most_once:
  assumes "calls \<noteq> []"
  shows "boots (run sched (concurrent_initialize arg calls)) \<le> 1
    \<and> (7 + length (engine_progress (fst (hd calls))) \<le> count_list sched 0 \<longrightarrow>
         settled (tasks (run sched (concurrent_initialize arg calls)) ! 0))
    \<and> (succeeded (tasks (run sched (concurrent_initialize arg calls)) ! 0) \<longrightarrow>
         boots (run sched (concurrent_initialize arg calls)) = 1
         \<and> (\<forall>j < length calls. \<not> failed (tasks (run sched (concurrent_initialize arg calls)) ! j))
         \<and> (\<forall>j < length calls.
              succeeded (tasks (resume j (run sched (concurrent_initialize arg calls))) ! j)))"
  using concurrent_initialize_safety [OF assms, of sched arg] leader_settles [OF assms, of sched arg]
  by blast

theorem concurrent_initialize_boots_at_most_once_witness:
  "boots (run [1, 0, 2, 0, 0, 0, 0, 0, 0, 1]
            (concurrent_initialize None [(healthy, Some 1), (healthy, Some 2), (healthy, None)])) = 1
   \<and> succeeded (tasks (run [1, 0, 2, 0, 0, 0, 0, 0, 0, 1]
            (concurrent_initialize None [(healthy, Some 1), (healthy, Some 2), (healthy, None)])) ! 0)
   \<and> succeeded (tasks (run [1, 0, 2, 0, 0, 0, 0, 0, 0, 1]
            (concurrent_initialize None [(healthy, Some 1), (healthy, Some 2), (healthy, None)])) ! 1)
   \<and> succeeded (tasks (resume 2 (run [1, 0, 2, 0, 0, 0, 0, 0, 0, 1]
            (concurrent_initialize None [(healthy, Some 1), (healthy, Some 2), (healthy, None)]))) ! 2)"
proof -
  let ?calls = "[(healthy, Some 1), (healthy, Some 2), (healthy, None)]
                 :: (environment \<times> ProgressCallback option) list"
  let ?sched = "[1, 0, 2, 0, 0, 0, 0, 0, 0, 1] :: nat list"
  let ?final = "run ?sched (concurrent_initialize None ?calls)"
  have some: "?calls \<noteq> []"
    by simp
  have turns: "7 + length (engine_progress (fst (hd ?calls))) \<le> count_list ?sched 0"
    by (simp add: healthy_def)
  have first: "succeeded (tasks ?final ! 0)"
    by (simp add: concurrent_initialize_def resume_def example_defs cycle_defs next_file_def
          succeeded_def)
  have second: "succeeded (tasks ?final ! 1)"
    by (simp add: concurrent_initialize_def resume_def example_defs cycle_defs next_file_def
          succeeded_def)
  note all = concurrent_initialize_boots_at_most_once [OF some, of ?sched None]
  from all [THEN conjunct2, THEN conjunct1] turns have "settled (tasks ?final ! 0)"
    by (rule mp)
  from all [THEN conjunct2, THEN conjunct2] first
  have after: "boots ?final = 1
      \<and> (\<forall>j < length ?calls. \<not> failed (tasks ?final ! j))
      \<and> (\<forall>j < length ?calls. succeeded (tasks (resume j ?final) ! j))"
    by (rule mp)
  from after have once: "boots ?final = 1"
    by (rule conjunct1)
  have "(2::nat) < length ?calls"
    by simp
  with after [THEN conjunct2, THEN conjunct2] have third: "succeeded (tasks (resume 2 ?final) ! 2)"
    by (elim allE impE)
  from once first second third show ?thesis
    by (intro conjI)
qed

text \<open>
  C7 as stated fails: on a page that is not isolated, a call of \<open>initialize\<close> that
  finds another call's cycle in flight waits for it and then returns normally. Of two
  overlapping calls the first is rejected with the environment error and the second
  resolves.
\<close>

theorem waiting_call_resolves_without_isolation:
  "crossOriginIsolated not_isolated = Some False
   \<and> point (tasks (run [0, 1]
        (concurrent_initialize None [(not_isolated, Some 1), (not_isolated, Some 2)])) ! 0)
       = Settled (Inl (environment_error (Some False)))
   \<and> point (tasks (run [0, 1]
        (concurrent_initialize None [(not_isolated, Some 1), (not_isolated, Some 2)])) ! 1)
       = Settled (Inr None)"
  by (simp add: concurrent_initialize_def resume_def example_defs cycle_defs next_file_def)

text \<open>
  C7, amended. On a page that is not cross-origin isolated or has no
  \<open>SharedArrayBuffer\<close>, a call of \<open>initialize\<close> that starts a cycle (the instance is
  neither initialized nor initializing) is rejected: with the environment error when
  its progress callback returns normally from the first event, and with what the
  callback throws otherwise. The call issues no request, does not touch the engine and
  leaves the instance as it was. However many calls of \<open>initialize\<close> overlap on such a
  page, on an instance in any state and in whatever order they are resumed, no request
  is ever issued.
\<close>

theorem initialize_fails_fast_without_isolation:
  assumes fresh: "\<not> initialized this" "\<not> initializing this"
    and page: "unisolated env"
  shows "initialize env cb this = Some (initialize_cycle env cb this)
    \<and> isl (outcome (initialize_cycle env cb this))
    \<and> (returns env cb progress_checking \<longrightarrow>
         outcome (initialize_cycle env cb this) = Inl (environment_error (crossOriginIsolated env)))
    \<and> (\<forall>c e. cb = Some c \<and> callback env c progress_checking = Some e \<longrightarrow>
         outcome (initialize_cycle env cb this) = Inl e)
    \<and> filter is_Fetch (effects (initialize_cycle env cb this)) = []
    \<and> filter is_engine_effect (effects (initialize_cycle env cb this)) = []
    \<and> state (initialize_cycle env cb this) = this
    \<and> (\<forall>sched calls object.
         (\<forall>call\<in>set calls. unisolated (fst call)) \<longrightarrow>
         filter is_Fetch (trace (run sched
           \<lparr>object = object, trace = [],
            tasks = map (\<lambda>(env, onProgress). \<lparr>answers = env, point = Init_Call onProgress\<rparr>) calls\<rparr>))
           = [])"
proof -
  let ?R = "initialize_cycle env cb this"
  have run: "initialize env cb this = Some ?R"
    using fresh by (rule initialize_fresh)
  have cycle: "isl (outcome ?R)
    \<and> (returns env cb progress_checking \<longrightarrow>
         outcome ?R = Inl (environment_error (crossOriginIsolated env)))
    \<and> (\<forall>c e. cb = Some c \<and> callback env c progress_checking = Some e \<longrightarrow> outcome ?R = Inl e)
    \<and> filter is_Fetch (effects ?R) = []
    \<and> filter is_engine_effect (effects ?R) = []
    \<and> state ?R = this"
    using fresh page
    by (cases cb)
       (auto simp: initialize_cycle_def checkEnvironment_def unisolated_def notify_def
          invocation_def returns_def Let_def split: option.splits)
  have overlapping: "\<forall>sched calls object.
         (\<forall>call\<in>set calls. unisolated (fst call)) \<longrightarrow>
         filter is_Fetch (trace (run sched
           \<lparr>object = object, trace = [],
            tasks = map (\<lambda>(env, onProgress). \<lparr>answers = env, point = Init_Call onProgress\<rparr>) calls\<rparr>))
           = []"
    using no_fetch_without_isolation by blast
  from run cycle overlapping show ?thesis
    by simp
qed

theorem initialize_fails_fast_without_isolation_witness:
  "initialize no_SharedArrayBuffer (Some 1) (new_LibreOfficeConverter None)
       = Some (initialize_cycle no_SharedArrayBuffer (Some 1) (new_LibreOfficeConverter None))
   \<and> outcome (initialize_cycle no_SharedArrayBuffer (Some 1) (new_LibreOfficeConverter None))
       = Inl (environment_error (Some True))
   \<and> filter is_Fetch (effects (initialize_cycle no_SharedArrayBuffer (Some 1) (new_LibreOfficeConverter None)))
       = []
   \<and> state (initialize_cycle no_SharedArrayBuffer (Some 1) (new_LibreOfficeConverter None))
       = new_LibreOfficeConverter None
   \<and> filter is_Fetch (trace (run [1, 0, 0, 1]
        \<lparr>object = new_LibreOfficeConverter None, trace = [],
         tasks = map (\<lambda>(env, onProgress). \<lparr>answers = env, point = Init_Call onProgress\<rparr>)
                   [(not_isolated, Some 1), (no_SharedArrayBuffer, None)]\<rparr>)) = []"
proof -
  let ?new = "new_LibreOfficeConverter None"
  let ?calls = "[(not_isolated, Some 1), (no_SharedArrayBuffer, None)]
                 :: (environment \<times> ProgressCallback option) list"
  have fresh: "\<not> initialized ?new" "\<not> initializing ?new"
    by (simp_all add: new_LibreOfficeConverter_def)
  have page: "unisolated no_SharedArrayBuffer"
    by (simp add: unisolated_def example_defs)
  have quiet: "returns no_SharedArrayBuffer (Some 1) progress_checking"
    by (simp add: returns_def example_defs)
  have pages: "\<forall>call\<in>set ?calls. unisolated (fst call)"
    by (simp add: unisolated_def truthy_def example_defs)
  have isolated: "crossOriginIsolated no_SharedArrayBuffer = Some True"
    by (simp add: example_defs)
  note all = initialize_fails_fast_without_isolation [OF fresh page, of "Some 1"]
  from all [THEN conjunct2, THEN conjunct2, THEN conjunct1] quiet
  have "outcome (initialize_cycle no_SharedArrayBuffer (Some 1) ?new)
      = Inl (environment_error (crossOriginIsolated no_SharedArrayBuffer))"
    by (rule mp)
  then have rejected: "outcome (initialize_cycle no_SharedArrayBuffer (Some 1) ?new)
      = Inl (environment_error (Some True))"
    by (simp only: isolated)
  from all [THEN conjunct2, THEN conjunct2, THEN conjunct2, THEN conjunct2, THEN conjunct2,
    THEN conjunct2, THEN conjunct2]
  have "(\<forall>call\<in>set ?calls. unisolated (fst call)) \<longrightarrow>
      filter is_Fetch (trace (run [1, 0, 0, 1]
        \<lparr>object = ?new, trace = [],
         tasks = map (\<lambda>(env, onProgress). \<lparr>answers = env, point = Init_Call onProgress\<rparr>) ?calls\<rparr>)) = []"
    by (elim allE)
  from this pages
  have overlapping: "filter is_Fetch (trace (run [1, 0, 0, 1]
        \<lparr>object = ?new, trace = [],
         tasks = map (\<lambda>(env, onProgress). \<lparr>answers = env, point = Init_Call onProgress\<rparr>) ?calls\<rparr>)) = []"
    by (rule mp)
  from all [THEN conjunct1] rejected
    all [THEN conjunct2, THEN conjunct2, THEN conjunct2, THEN conjunct2, THEN conjunct1]
    all [THEN conjunct2, THEN conjunct2, THEN conjunct2, THEN conjunct2, THEN conjunct2,
      THEN conjunct2, THEN conjunct1]
    overlapping
  show ?thesis
    by (intro conjI)
qed

text \<open>
  C8 as stated fails for one kind of network failure: a rejection that is itself an
  \<open>Error\<close> whose message starts with \<open>Required file\<close> is thrown again unchanged, so the
  error that aborts \<open>initialize\<close> need not name the asset whose request failed.
\<close>

theorem rethrown_error_names_no_asset:
  "fetch odd_rejection (asset_url LIBREOFFICE_PATH ''soffice.data'') = Rejects (Error ''Required file'')
   \<and> outcome (initialize_cycle odd_rejection None (new_LibreOfficeConverter None))
       = Inl (Error ''Required file'')
   \<and> \<not> mentions ''Required file'' ''soffice.data''"
  by (simp add: example_defs cycle_defs asset_url_def LIBREOFFICE_PATH_def ASSET_VERSION_def
        catch_clause_def startsWith_def)

text \<open>
  C8, amended. In a call of \<open>initialize\<close> that starts a cycle on an isolated page, when
  the requests for the assets before \<open>file\<close> are answered with success and the request
  for \<open>file\<close> is answered with a non-success response or fails (a network failure),
  the call is rejected and the engine is never constructed. When the progress callback
  has returned normally from the first event, the error is
  \<open>Required file <file> returned HTTP <status>\<close> for a non-success response and
  \<open>Cannot fetch <file>: <error>\<close> for a network failure, unless the failure is itself
  an \<open>Error\<close> whose message starts with \<open>Required file\<close>, which is thrown again as it
  is.
\<close>

theorem missing_asset_aborts_initialize:
  assumes fresh: "\<not> initialized this" "\<not> initializing this"
    and isolated: "crossOriginIsolated env = Some True" "hasSharedArrayBuffer env"
    and position: "files = before @ file # rest"
    and earlier: "\<forall>f\<in>set before. \<exists>status. fetch env (asset_url (basePath this) f) = Response True status"
    and failing: "(\<exists>status. fetch env (asset_url (basePath this) file) = Response False status)
                  \<or> (\<exists>e. fetch env (asset_url (basePath this) file) = Rejects e)"
  shows "initialize env cb this = Some (initialize_cycle env cb this)
    \<and> isl (outcome (initialize_cycle env cb this))
    \<and> filter is_engine_effect (effects (initialize_cycle env cb this)) = []
    \<and> converter (state (initialize_cycle env cb this)) = converter this
    \<and> (returns env cb progress_checking \<longrightarrow>
         (\<forall>status. fetch env (asset_url (basePath this) file) = Response False status \<longrightarrow>
            outcome (initialize_cycle env cb this)
              = Inl (Error (''Required file '' @ file @ '' returned HTTP '' @ show_nat status)))
       \<and> (\<forall>e. fetch env (asset_url (basePath this) file) = Rejects e \<longrightarrow>
            \<not> (instanceof_Error e \<and> startsWith (message_of e) ''Required file'') \<longrightarrow>
            outcome (initialize_cycle env cb this)
              = Inl (Error (''Cannot fetch '' @ file @ '': '' @ to_text e)))
       \<and> (\<forall>e. fetch env (asset_url (basePath this) file) = Rejects e \<longrightarrow>
            instanceof_Error e \<and> startsWith (message_of e) ''Required file'' \<longrightarrow>
            outcome (initialize_cycle env cb this) = Inl e))"
proof -
  let ?this1 = "this\<lparr>initializing := True\<rparr>"
  let ?R = "initialize_cycle env cb this"
  let ?res = "fetch env (asset_url (basePath this) file)"
  let ?err = "case ?res of
                Response ok status \<Rightarrow>
                  Error (''Required file '' @ file @ '' returned HTTP '' @ show_nat status)
              | Rejects e \<Rightarrow> catch_clause file e"
  have page: "\<not> unisolated env"
    using isolated by (simp add: unisolated_def truthy_def)
  have served: "\<forall>f\<in>set before. \<not> unavailable (fetch env (asset_url (basePath ?this1) f))"
    using earlier by auto
  have unserved: "unavailable (fetch env (asset_url (basePath ?this1) file))"
    using failing by auto
  from checkEnvironment_first_failure [OF page position served unserved]
  have chk: "checkEnvironment env ?this1
      = (Some ?err, map (\<lambda>f. Fetch (asset_url (basePath this) f)) (before @ [file]))"
    by simp
  then have threw: "fst (checkEnvironment env ?this1) \<noteq> None"
    by simp
  have run: "initialize env cb this = Some ?R"
    using fresh by (rule initialize_fresh)
  have rejected: "isl (outcome ?R)"
  proof (cases "outcome ?R")
    case (Inl e)
    then show ?thesis by simp
  next
    case (Inr u)
    from cycle_resolved [OF this] threw show ?thesis by simp
  qed
  from cycle_engine_untouched [OF threw]
  have untouched: "filter is_engine_effect (effects ?R) = []"
    and kept: "converter (state ?R) = converter this"
    by simp_all
  have named: "returns env cb progress_checking \<longrightarrow>
         (\<forall>status. ?res = Response False status \<longrightarrow>
            outcome ?R = Inl (Error (''Required file '' @ file @ '' returned HTTP '' @ show_nat status)))
       \<and> (\<forall>e. ?res = Rejects e \<longrightarrow>
            \<not> (instanceof_Error e \<and> startsWith (message_of e) ''Required file'') \<longrightarrow>
            outcome ?R = Inl (Error (''Cannot fetch '' @ file @ '': '' @ to_text e)))
       \<and> (\<forall>e. ?res = Rejects e \<longrightarrow>
            instanceof_Error e \<and> startsWith (message_of e) ''Required file'' \<longrightarrow>
            outcome ?R = Inl e)"
  proof
    assume "returns env cb progress_checking"
    from cycle_check_thrown [OF this chk] have "outcome ?R = Inl ?err"
      by simp
    then show "(\<forall>status. ?res = Response False status \<longrightarrow>
            outcome ?R = Inl (Error (''Required file '' @ file @ '' returned HTTP '' @ show_nat status)))
       \<and> (\<forall>e. ?res = Rejects e \<longrightarrow>
            \<not> (instanceof_Error e \<and> startsWith (message_of e) ''Required file'') \<longrightarrow>
            outcome ?R = Inl (Error (''Cannot fetch '' @ file @ '': '' @ to_text e)))
       \<and> (\<forall>e. ?res = Rejects e \<longrightarrow>
            instanceof_Error e \<and> startsWith (message_of e) ''Required file'' \<longrightarrow>
            outcome ?R = Inl e)"
      by (auto simp: catch_clause_def)
  qed
  from run rejected untouched kept named show ?thesis
    by (intro conjI)
qed

theorem missing_asset_aborts_initialize_witness:
  "outcome (initialize_cycle data_bundle_missing None (new_LibreOfficeConverter None))
     = Inl (Error ''Required file soffice.data returned HTTP 404'')
   \<and> filter is_engine_effect (effects (initialize_cycle data_bundle_missing None (new_LibreOfficeConverter None)))
       = []
   \<and> converter (state (initialize_cycle data_bundle_missing None (new_LibreOfficeConverter None))) = None
   \<and> mentions ''Required file soffice.data returned HTTP 404'' ''soffice.data''
   \<and> mentions ''Required file soffice.data returned HTTP 404'' ''404''
   \<and> fetch wasm_unreachable (asset_url LIBREOFFICE_PATH ''soffice.wasm'')
       = Rejects (Foreign True ''Failed to fetch'' ''TypeError: Failed to fetch'')
   \<and> outcome (initialize_cycle wasm_unreachable (Some 1) (new_LibreOfficeConverter None))
       = Inl (Error ''Cannot fetch soffice.wasm: TypeError: Failed to fetch'')
   \<and> filter is_engine_effect (effects (initialize_cycle wasm_unreachable (Some 1) (new_LibreOfficeConverter None)))
       = []
   \<and> mentions ''Cannot fetch soffice.wasm: TypeError: Failed to fetch'' ''soffice.wasm''
   \<and> mentions ''Cannot fetch soffice.wasm: TypeError: Failed to fetch'' ''TypeError: Failed to fetch''"
proof -
  let ?new = "new_LibreOfficeConverter None"
  let ?failure = "Foreign True ''Failed to fetch'' ''TypeError: Failed to fetch''"
  have fresh: "\<not> initialized ?new" "\<not> initializing ?new"
    by (simp_all add: new_LibreOfficeConverter_def)
  have base: "basePath ?new = LIBREOFFICE_PATH"
    by (simp add: new_LibreOfficeConverter_def)
  have isolated: "crossOriginIsolated data_bundle_missing = Some True"
    "hasSharedArrayBuffer data_bundle_missing"
    "crossOriginIsolated wasm_unreachable = Some True"
    "hasSharedArrayBuffer wasm_unreachable"
    by (simp_all add: example_defs)
  have quiet: "returns data_bundle_missing None progress_checking"
    "returns wasm_unreachable (Some 1) progress_checking"
    by (simp_all add: returns_def example_defs)
  have position: "files = [''soffice.wasm''] @ ''soffice.data''
                    # [''soffice.js'', ''soffice.worker.js'', ''browser.worker.global.js'']"
    by (simp add: files_def)
  have earlier: "\<forall>f\<in>set [''soffice.wasm'']. \<exists>status.
      fetch data_bundle_missing (asset_url (basePath ?new) f) = Response True status"
    by (simp add: example_defs asset_url_def new_LibreOfficeConverter_def)
  have response: "fetch data_bundle_missing (asset_url (basePath ?new) ''soffice.data'') = Response False 404"
    by (simp add: example_defs new_LibreOfficeConverter_def)
  then have failing: "(\<exists>status. fetch data_bundle_missing (asset_url (basePath ?new) ''soffice.data'')
                          = Response False status)
      \<or> (\<exists>e. fetch data_bundle_missing (asset_url (basePath ?new) ''soffice.data'') = Rejects e)"
    by simp
  have digits: "show_nat 404 = ''404''"
    by (simp add: show_nat.simps digit_char_def)
  note missing = missing_asset_aborts_initialize
    [OF fresh isolated(1,2) position earlier failing, of None]
  from missing [THEN conjunct2, THEN conjunct2, THEN conjunct2, THEN conjunct2] quiet(1)
  have "(\<forall>status. fetch data_bundle_missing (asset_url (basePath ?new) ''soffice.data'')
                     = Response False status \<longrightarrow>
            outcome (initialize_cycle data_bundle_missing None ?new)
              = Inl (Error (''Required file '' @ ''soffice.data'' @ '' returned HTTP '' @ show_nat status)))"
    by (rule mp [THEN conjunct1])
  then have "fetch data_bundle_missing (asset_url (basePath ?new) ''soffice.data'') = Response False 404 \<longrightarrow>
      outcome (initialize_cycle data_bundle_missing None ?new)
        = Inl (Error (''Required file '' @ ''soffice.data'' @ '' returned HTTP '' @ show_nat 404))"
    by (rule spec)
  from this response have "outcome (initialize_cycle data_bundle_missing None ?new)
        = Inl (Error (''Required file '' @ ''soffice.data'' @ '' returned HTTP '' @ show_nat 404))"
    by (rule mp)
  then have rejected: "outcome (initialize_cycle data_bundle_missing None ?new)
      = Inl (Error ''Required file soffice.data returned HTTP 404'')"
    by (simp add: digits)
  from missing [THEN conjunct2, THEN conjunct2, THEN conjunct1]
  have untouched: "filter is_engine_effect (effects (initialize_cycle data_bundle_missing None ?new)) = []" .
  from missing [THEN conjunct2, THEN conjunct2, THEN conjunct2, THEN conjunct1]
  have none: "converter (state (initialize_cycle data_bundle_missing None ?new)) = None"
    by (simp add: new_LibreOfficeConverter_def)
  have named: "mentions ''Required file soffice.data returned HTTP 404'' ''soffice.data''"
    "mentions ''Required file soffice.data returned HTTP 404'' ''404''"
    by (simp_all add: startsWith_def)
  have position': "files = [] @ ''soffice.wasm''
                    # [''soffice.data'', ''soffice.js'', ''soffice.worker.js'', ''browser.worker.global.js'']"
    by (simp add: files_def)
  have earlier': "\<forall>f\<in>set []. \<exists>status.
      fetch wasm_unreachable (asset_url (basePath ?new) f) = Response True status"
    by simp
  have rejection: "fetch wasm_unreachable (asset_url (basePath ?new) ''soffice.wasm'') = Rejects ?failure"
    by (simp add: example_defs new_LibreOfficeConverter_def)
  then have failing': "(\<exists>status. fetch wasm_unreachable (asset_url (basePath ?new) ''soffice.wasm'')
                          = Response False status)
      \<or> (\<exists>e. fetch wasm_unreachable (asset_url (basePath ?new) ''soffice.wasm'') = Rejects e)"
    by simp
  have foreign: "\<not> (instanceof_Error ?failure \<and> startsWith (message_of ?failure) ''Required file'')"
    by (simp add: startsWith_def)
  note unreachable = missing_asset_aborts_initialize
    [OF fresh isolated(3,4) position' earlier' failing', of "Some 1"]
  from unreachable [THEN conjunct2, THEN conjunct2, THEN conjunct2, THEN conjunct2] quiet(2)
  have "(\<forall>e. fetch wasm_unreachable (asset_url (basePath ?new) ''soffice.wasm'') = Rejects e \<longrightarrow>
            \<not> (instanceof_Error e \<and> startsWith (message_of e) ''Required file'') \<longrightarrow>
            outcome (initialize_cycle wasm_unreachable (Some 1) ?new)
              = Inl (Error (''Cannot fetch '' @ ''soffice.wasm'' @ '': '' @ to_text e)))"
    by (rule mp [THEN conjunct2, THEN conjunct1])
  then have "fetch wasm_unreachable (asset_url (basePath ?new) ''soffice.wasm'') = Rejects ?failure \<longrightarrow>
            \<not> (instanceof_Error ?failure \<and> startsWith (message_of ?failure) ''Required file'') \<longrightarrow>
            outcome (initialize_cycle wasm_unreachable (Some 1) ?new)
              = Inl (Error (''Cannot fetch '' @ ''soffice.wasm'' @ '': '' @ to_text ?failure))"
    by (rule spec)
  from this [THEN mp, OF rejection, THEN mp, OF foreign]
  have rejected': "outcome (initialize_cycle wasm_unreachable (Some 1) ?new)
      = Inl (Error ''Cannot fetch soffice.wasm: TypeError: Failed to fetch'')"
    by simp
  from unreachable [THEN conjunct2, THEN conjunct2, THEN conjunct1]
  have untouched': "filter is_engine_effect (effects (initialize_cycle wasm_unreachable (Some 1) ?new)) = []" .
  have named': "mentions ''Cannot fetch soffice.wasm: TypeError: Failed to fetch'' ''soffice.wasm''"
    "mentions ''Cannot fetch soffice.wasm: TypeError: Failed to fetch'' ''TypeError: Failed to fetch''"
    by (simp_all add: startsWith_def)
  from rejection have rejection'': "fetch wasm_unreachable (asset_url LIBREOFFICE_PATH ''soffice.wasm'')
       = Rejects ?failure"
    by (simp only: base)
  from rejected untouched none named rejection'' rejected' untouched' named' show ?thesis
    by (intro conjI)
qed

text \<open>
  C9 as stated fails: the listener hands the engine's percent values on as they are, so
  an engine that reports 50 and then 30 makes the callback see 0, 5, 50, 30, 100.
\<close>

theorem engine_percent_forwarded_unchanged:
  "outcome (initialize_cycle regressing (Some 1) (new_LibreOfficeConverter None)) = Inr ()
   \<and> map percent (received 1 (effects (initialize_cycle regressing (Some 1) (new_LibreOfficeConverter None))))
       = [0, 5, 50, 30, 100]
   \<and> \<not> sorted (map percent
                  (received 1 (effects (initialize_cycle regressing (Some 1) (new_LibreOfficeConverter None)))))"
  by (simp add: example_defs cycle_defs onProgress_listener_def forwarded_def
        progress_checking_def progress_loading_def progress_ready_def)

text \<open>
  C9, amended. In a successful initialization that starts a cycle, the callback
  receives the 0 percent and 5 percent events, then every engine event in the engine's
  order with the engine's phase and percent, then the wrapper's \<open>ready\<close>/100 event, which
  it receives exactly once and last; the listener's callback variable is cleared, and
  no engine event fired later reaches the callback. The percent
  values are non-decreasing whenever the engine's own values are non-decreasing and lie
  between 5 and 100.
\<close>

theorem progress_events_of_successful_initialize:
  assumes fresh: "\<not> initialized this" "\<not> initializing this"
    and success: "outcome (initialize_cycle env (Some cb) this) = Inr ()"
  shows "initialize env (Some cb) this = Some (initialize_cycle env (Some cb) this)
    \<and> received cb (effects (initialize_cycle env (Some cb) this))
           = progress_checking # progress_loading # map forwarded (engine_progress env) @ [progress_ready]
    \<and> count_list (received cb (effects (initialize_cycle env (Some cb) this))) progress_ready = 1
    \<and> (\<forall>info. late_event (state (initialize_cycle env (Some cb) this)) info = [])
    \<and> (sorted (map percent (engine_progress env)) \<and>
         (\<forall>p\<in>set (engine_progress env). 5 \<le> percent p \<and> percent p \<le> 100) \<longrightarrow>
         sorted (map percent (received cb (effects (initialize_cycle env (Some cb) this)))))
    \<and> map_option captured (converter (state (initialize_cycle env (Some cb) this))) = Some None"
proof -
  let ?run = "initialize_cycle env (Some cb) this"
  obtain r t1 where chk: "checkEnvironment env (this\<lparr>initializing := True\<rparr>) = (r, t1)"
    by (cases "checkEnvironment env (this\<lparr>initializing := True\<rparr>)")
  from cycle_success [OF success]
  have quiet: "callback env cb progress_checking = None" "callback env cb progress_loading = None"
      "callback env cb progress_ready = None"
    and passed: "fst (checkEnvironment env (this\<lparr>initializing := True\<rparr>)) = None"
    and boot: "engine_initialize env = None"
    by (simp_all add: returns_def)
  from passed chk have r: "r = None"
    by simp
  from checkEnvironment_effects [OF chk] have t1: "received cb t1 = []" by simp
  have listener: "received cb (concat (map (onProgress_listener (Some cb)
        (this\<lparr>initializing := True, converter := Some \<lparr>options = make_options (basePath this), captured = Some cb\<rparr>\<rparr>))
        (engine_progress env))) = map forwarded (engine_progress env)"
    using fresh by (intro received_listener) simp
  have seq: "received cb (effects ?run)
           = progress_checking # progress_loading # map forwarded (engine_progress env) @ [progress_ready]"
    using listener
    by (simp add: initialize_cycle_def notify_def invocation_def quiet Let_def chk r boot
          received_append t1)
  have once: "count_list (received cb (effects ?run)) progress_ready = 1"
    by (simp add: seq count_forwarded) (simp add: progress_checking_def progress_loading_def progress_ready_def)
  have late: "\<forall>info. late_event (state ?run) info = []"
    by (simp add: initialize_cycle_def notify_def quiet Let_def chk r boot late_event_def
          onProgress_listener_def)
  have percents: "map percent (received cb (effects ?run))
      = 0 # 5 # map percent (engine_progress env) @ [100]"
    by (simp add: seq forwarded_def progress_checking_def progress_loading_def progress_ready_def)
  have mono: "sorted (map percent (engine_progress env)) \<and>
         (\<forall>p\<in>set (engine_progress env). 5 \<le> percent p \<and> percent p \<le> 100) \<longrightarrow>
         sorted (map percent (received cb (effects ?run)))"
    unfolding percents by (intro impI sorted_between) auto
  have run: "initialize env (Some cb) this = Some ?run"
    using fresh by (simp add: initialize_def)
  have detached: "map_option captured (converter (state ?run)) = Some None"
    by (simp add: initialize_cycle_def notify_def quiet Let_def chk r boot)
  from run seq once late mono detached show ?thesis by blast
qed

theorem progress_events_of_successful_initialize_witness:
  "outcome (initialize_cycle steady (Some 1) (new_LibreOfficeConverter None)) = Inr ()
   \<and> map percent (received 1 (effects (initialize_cycle steady (Some 1) (new_LibreOfficeConverter None))))
       = [0, 5, 30, 50, 100]
   \<and> sorted (map percent (received 1 (effects (initialize_cycle steady (Some 1) (new_LibreOfficeConverter None)))))
   \<and> count_list (received 1 (effects (initialize_cycle steady (Some 1) (new_LibreOfficeConverter None))))
        progress_ready = 1
   \<and> late_event (state (initialize_cycle steady (Some 1) (new_LibreOfficeConverter None)))
        \<lparr>phase = ''loading'', percent = 99, message = ''late''\<rparr> = []"
proof -
  let ?new = "new_LibreOfficeConverter None"
  let ?run = "initialize_cycle steady (Some 1) ?new"
  have fresh: "\<not> initialized ?new" "\<not> initializing ?new"
    by (simp_all add: new_LibreOfficeConverter_def)
  have success: "outcome ?run = Inr ()"
    by (simp add: example_defs cycle_defs)
  have engine: "sorted (map percent (engine_progress steady)) \<and>
      (\<forall>p\<in>set (engine_progress steady). 5 \<le> percent p \<and> percent p \<le> 100)"
    by (simp add: example_defs)
  note all = progress_events_of_successful_initialize [OF fresh success]
  from all [THEN conjunct2, THEN conjunct1]
  have percents: "map percent (received 1 (effects ?run)) = [0, 5, 30, 50, 100]"
    by (simp add: example_defs forwarded_def progress_checking_def progress_loading_def
          progress_ready_def)
  from all [THEN conjunct2, THEN conjunct2, THEN conjunct1]
  have once: "count_list (received 1 (effects ?run)) progress_ready = 1" .
  from all [THEN conjunct2, THEN conjunct2, THEN conjunct2, THEN conjunct1]
  have late: "late_event (state ?run) \<lparr>phase = ''loading'', percent = 99, message = ''late''\<rparr> = []"
    by (rule spec)
  from all [THEN conjunct2, THEN conjunct2, THEN conjunct2, THEN conjunct2, THEN conjunct1] engine
  have mono: "sorted (map percent (received 1 (effects ?run)))"
    by (rule mp)
  from success percents mono once late show ?thesis
    by (intro conjI)
qed

text \<open>
  C10. After the first call of \<open>getLibreOfficeConverter\<close> and whatever the program does
  next (further calls with any argument, direct constructions, \<open>initialize\<close>, \<open>convert\<close>
  and \<open>destroy\<close> on any instance), a call with any argument returns the reference the
  first call returned and changes nothing, and that instance still has the base path
  fixed at its creation: the first call's argument, or the default when the argument was
  absent or empty.
\<close>

theorem singleton_keeps_identity_and_basePath:
  assumes "converterInstance m0 = None"
  shows "fst (getLibreOfficeConverter arg (snd (perform_all as (snd (getLibreOfficeConverter arg0 m0)))))
           = fst (getLibreOfficeConverter arg0 m0)
    \<and> basePath (heap (snd (perform_all as (snd (getLibreOfficeConverter arg0 m0))))
                  ! fst (getLibreOfficeConverter arg0 m0))
        = (case arg0 of
             None \<Rightarrow> LIBREOFFICE_PATH
           | Some b \<Rightarrow> (if b = '''' then LIBREOFFICE_PATH else b))
    \<and> snd (getLibreOfficeConverter arg (snd (perform_all as (snd (getLibreOfficeConverter arg0 m0)))))
        = snd (perform_all as (snd (getLibreOfficeConverter arg0 m0)))"
proof -
  let ?r = "fst (getLibreOfficeConverter arg0 m0)"
  let ?m1 = "snd (getLibreOfficeConverter arg0 m0)"
  have "singleton_is ?r (basePath (new_LibreOfficeConverter arg0)) ?m1"
    using assms by (simp add: singleton_is_def getLibreOfficeConverter_def Let_def)
  then have "singleton_is ?r (basePath (new_LibreOfficeConverter arg0)) (snd (perform_all as ?m1))"
    by (rule perform_all_keeps_singleton)
  then show ?thesis
    by (simp add: singleton_is_def getLibreOfficeConverter_def new_LibreOfficeConverter_def)
qed

theorem singleton_keeps_identity_and_basePath_witness:
  "converterInstance fresh_module = None
   \<and> fst (getLibreOfficeConverter (Some ''/first/'') fresh_module) = 0
   \<and> fst (getLibreOfficeConverter (Some ''/third/'')
        (snd (perform_all
           [Initialize 0 healthy None, New (Some ''/other/''), Destroy 0 healthy,
            Get (Some ''/second/''), Initialize 0 healthy None]
           (snd (getLibreOfficeConverter (Some ''/first/'') fresh_module))))) = 0
   \<and> basePath (heap (snd (perform_all
           [Initialize 0 healthy None, New (Some ''/other/''), Destroy 0 healthy,
            Get (Some ''/second/''), Initialize 0 healthy None]
           (snd (getLibreOfficeConverter (Some ''/first/'') fresh_module)))) ! 0) = ''/first/''"
proof -
  let ?program = "[Initialize 0 healthy None, New (Some ''/other/''), Destroy 0 healthy,
            Get (Some ''/second/''), Initialize 0 healthy None]"
  have empty: "converterInstance fresh_module = None"
    by (simp add: fresh_module_def)
  have first: "fst (getLibreOfficeConverter (Some ''/first/'') fresh_module) = 0"
    by (simp add: getLibreOfficeConverter_def fresh_module_def)
  note all = singleton_keeps_identity_and_basePath
    [OF empty, of "Some ''/third/''" ?program "Some ''/first/''"]
  from all [THEN conjunct1] first
  have same: "fst (getLibreOfficeConverter (Some ''/third/'')
        (snd (perform_all ?program (snd (getLibreOfficeConverter (Some ''/first/'') fresh_module))))) = 0"
    by (rule trans)
  from all [THEN conjunct2, THEN conjunct1]
  have path: "basePath (heap (snd (perform_all ?program
        (snd (getLibreOfficeConverter (Some ''/first/'') fresh_module)))) ! 0) = ''/first/''"
    unfolding first by simp
  from empty first same path show ?thesis
    by (intro conjI)
qed

end
